theory Spec2Isabelle
  imports Complex_Main "HOL-Library.Multiset"
begin

section \<open>The CIFAR data provider (data\_providers/cifar.py)\<close>

text \<open>
  A shallow embedding of \<^verbatim>\<open>data_providers/cifar.py\<close>: the augmentation and
  normalization helpers, the class \<^verbatim>\<open>CifarDataSet\<close> with its epoch and batch
  state, and the parts of \<^verbatim>\<open>CifarDataProvider\<close> that split the corpus and
  encode labels.

  Conventions of the model.
  \<^item> A Python exception is a value of \<open>error\<close>; a function that can raise returns
    \<open>error + 'a\<close>, with \<open>Inl\<close> for the exception.
  \<^item> \<^verbatim>\<open>np.random\<close> is a global generator. Its state is an infinite sequence of
    raw draws \<open>rng\<close>; every function that draws takes the state and returns the rest.
    All theorems hold for every such sequence.
  \<^item> A numpy array carries its shape beside its nested data, so that an axis of
    length zero keeps the lengths of the axes behind it.
  \<^item> Array elements are real numbers. Their arithmetic is exact, and where numpy
    divides by zero (a non-finite element) the model has HOL's \<open>x / 0 = 0\<close>; no
    statement below depends on the value of a normalized element. The one float
    computation that decides a statement, the split index of the provider, is modelled
    in IEEE 754 double arithmetic.
\<close>

subsection \<open>Exceptions, the random generator, slices\<close>

datatype error = IndexError | ValueError | AttributeError | OverflowError

type_synonym rng = "nat \<Rightarrow> nat"

text \<open>The generator whose every raw draw is \<open>k\<close>.\<close>

definition const_rng :: "nat \<Rightarrow> rng" where
  "const_rng k = (\<lambda>i. k)"

definition draw :: "rng \<Rightarrow> nat \<times> rng" where
  "draw g = (g 0, \<lambda>i. g (Suc i))"

text \<open>
  \<^verbatim>\<open>np.random.randint(low, high)\<close>: an integer of the half-open range
  \<open>[low, high)\<close>; numpy raises ValueError when the range is empty.
\<close>

definition randint :: "int \<Rightarrow> int \<Rightarrow> rng \<Rightarrow> (error + int) \<times> rng" where
  "randint low high g =
     (if high \<le> low then (Inl ValueError, g)
      else (case draw g of (r, g') \<Rightarrow> (Inr (low + int (r mod nat (high - low))), g')))"

text \<open>
  \<^verbatim>\<open>np.random.permutation(n)\<close>: a permutation of \<open>range(n)\<close>. One raw draw is
  decoded in the factorial number system, so that every permutation of \<open>[0..<n]\<close>
  is the result for some draw.
\<close>

definition insert_at :: "nat \<Rightarrow> 'a \<Rightarrow> 'a list \<Rightarrow> 'a list" where
  "insert_at k x xs = take k xs @ x # drop k xs"

primrec perm_decode :: "nat \<Rightarrow> nat \<Rightarrow> nat list" where
  "perm_decode 0 r = []"
| "perm_decode (Suc n) r = insert_at (r mod Suc n) n (perm_decode n (r div Suc n))"

definition permutation :: "nat \<Rightarrow> rng \<Rightarrow> nat list \<times> rng" where
  "permutation n g = (case draw g of (r, g') \<Rightarrow> (perm_decode n r, g'))"

text \<open>
  A Python slice \<^verbatim>\<open>xs[start:end]\<close> along the first axis: a negative bound
  counts from the end, every bound is clamped to the length, a missing bound
  (\<open>None\<close>) is the respective end of the sequence.
\<close>

definition slice_bound :: "int \<Rightarrow> nat \<Rightarrow> nat" where
  "slice_bound i n = (if i < 0 then nat (max 0 (i + int n)) else min (nat i) n)"

definition py_slice :: "int option \<Rightarrow> int option \<Rightarrow> 'a list \<Rightarrow> 'a list" where
  "py_slice start end xs =
     (let n = length xs;
          s = (case start of None \<Rightarrow> 0 | Some i \<Rightarrow> slice_bound i n);
          e = (case end of None \<Rightarrow> n | Some i \<Rightarrow> slice_bound i n)
      in take (e - s) (drop s xs))"

text \<open>
  Indexing with an array of indices, \<^verbatim>\<open>xs[idx]\<close>, copies the selected
  entries; an index beyond the first axis raises IndexError. (The indices here come
  from \<open>permutation\<close> and are never negative.)
\<close>

definition take_indices :: "'a list \<Rightarrow> nat list \<Rightarrow> error + 'a list" where
  "take_indices xs idx =
     (if \<forall>i \<in> set idx. i < length xs then Inr (map (\<lambda>i. xs ! i) idx) else Inl IndexError)"

subsection \<open>Arrays\<close>

type_synonym pixels2 = "real list list"
type_synonym pixels3 = "real list list list"

record ndarray2 =
  shape2 :: "nat \<times> nat"
  data2 :: pixels2

record ndarray3 =
  shape3 :: "nat \<times> nat \<times> nat"
  data3 :: pixels3

text \<open>A batch of images: \<open>shape = (length data4, H, W, C)\<close>.\<close>

record ndarray4 =
  shape_tail :: "nat \<times> nat \<times> nat"
  data4 :: "pixels3 list"

definition zeros3 :: "nat \<times> nat \<times> nat \<Rightarrow> ndarray3" where
  "zeros3 s = (case s of (h, w, c) \<Rightarrow>
     \<lparr>shape3 = s, data3 = replicate h (replicate w (replicate c 0))\<rparr>)"

definition zeros4 :: "nat \<Rightarrow> nat \<times> nat \<times> nat \<Rightarrow> ndarray4" where
  "zeros4 n s = \<lparr>shape_tail = s, data4 = replicate n (data3 (zeros3 s))\<rparr>"

definition item4 :: "ndarray4 \<Rightarrow> nat \<Rightarrow> ndarray3" where
  "item4 a i = \<lparr>shape3 = shape_tail a, data3 = data4 a ! i\<rparr>"

subsection \<open>Augmentation\<close>

text \<open>
  \<^verbatim>\<open>zeros_padded = np.zeros(new_shape)\<close> followed by
  \<^verbatim>\<open>zeros_padded[pad:H + pad, pad:W + pad, :] = image\<close>: the image with a
  border of \<open>pad\<close> zero pixels on each spatial side. The padding is a natural
  number: the statements below are about \<open>pad \<ge> 0\<close>.
\<close>

definition zero_pad :: "ndarray3 \<Rightarrow> nat \<Rightarrow> ndarray3" where
  "zero_pad img pad = (case shape3 img of (h, w, c) \<Rightarrow>
     (let zero_px = replicate c 0;
          zero_row = replicate (w + pad * 2) zero_px
      in \<lparr>shape3 = (h + pad * 2, w + pad * 2, c),
          data3 = replicate pad zero_row
                  @ map (\<lambda>row. replicate pad zero_px @ row @ replicate pad zero_px) (data3 img)
                  @ replicate pad zero_row\<rparr>))"

text \<open>
  \<^verbatim>\<open>a[x0:x1, y0:y1, k]\<close>: two slices and an integer index on the channel
  axis. The result has two axes; an index \<open>k\<close> that is not below the length of the
  channel axis raises IndexError.
\<close>

definition crop_channel :: "ndarray3 \<Rightarrow> int \<Rightarrow> int \<Rightarrow> int \<Rightarrow> int \<Rightarrow> nat \<Rightarrow> error + ndarray2" where
  "crop_channel a x0 x1 y0 y1 k = (case shape3 a of (h, w, c) \<Rightarrow>
     (if c \<le> k then Inl IndexError
      else (let rows = py_slice (Some x0) (Some x1) (data3 a);
                nx = slice_bound x1 h - slice_bound x0 h;
                ny = slice_bound y1 w - slice_bound y0 w
            in Inr \<lparr>shape2 = (nx, ny),
                    data2 = map (\<lambda>row. map (\<lambda>px. px ! k) (py_slice (Some y0) (Some y1) row)) rows\<rparr>)))"

text \<open>
  Lines 27 to 30 of \<^verbatim>\<open>augment_image\<close>:
  \<^verbatim>\<open>flip = np.random.randint(0, 1)\<close>, then
  \<^verbatim>\<open>if flip: cropped = cropped[:, ::-1, :]\<close>. The crop has two axes, so the
  three-axis index of the mirror raises IndexError.
\<close>

definition maybe_mirror :: "ndarray2 \<Rightarrow> rng \<Rightarrow> (error + ndarray2) \<times> rng" where
  "maybe_mirror cropped g =
     (case randint 0 1 g of
        (Inl e, g') \<Rightarrow> (Inl e, g')
      | (Inr flip, g') \<Rightarrow> if flip \<noteq> 0 then (Inl IndexError, g') else (Inr cropped, g'))"

definition augment_image :: "ndarray3 \<Rightarrow> nat \<Rightarrow> rng \<Rightarrow> (error + ndarray2) \<times> rng" where
  "augment_image img pad g = (case shape3 img of (h, w, c) \<Rightarrow>
     (let zeros_padded = zero_pad img pad in
      case randint 0 (int pad * 2) g of
        (Inl e, g1) \<Rightarrow> (Inl e, g1)
      | (Inr init_x, g1) \<Rightarrow>
          (case randint 0 (int pad * 2) g1 of
             (Inl e, g2) \<Rightarrow> (Inl e, g2)
           | (Inr init_y, g2) \<Rightarrow>
               (case crop_channel zeros_padded init_x (init_x + int h) init_y (init_y + int w) c of
                  Inl e \<Rightarrow> (Inl e, g2)
                | Inr cropped \<Rightarrow> maybe_mirror cropped g2))))"

text \<open>
  \<^verbatim>\<open>new_images[i] = v\<close> for a two-axis \<open>v\<close> and a three-axis slot of shape
  \<open>(H, W, C)\<close>: numpy broadcasts \<open>v\<close> along a new leading axis when its shape
  \<open>(h, w)\<close> fits \<open>(W, C)\<close> (an axis of length one is repeated), and raises
  ValueError otherwise.
\<close>

definition assign_item :: "ndarray4 \<Rightarrow> nat \<Rightarrow> ndarray2 \<Rightarrow> error + ndarray4" where
  "assign_item new i v = (case shape_tail new of (H, W, C) \<Rightarrow> (case shape2 v of (h, w) \<Rightarrow>
     (if (h = W \<or> h = 1) \<and> (w = C \<or> w = 1) then
        Inr (new\<lparr>data4 := (data4 new)[i :=
               replicate H (map (\<lambda>b. map (\<lambda>k. data2 v ! (if h = 1 then 0 else b) ! (if w = 1 then 0 else k))
                                      [0..<C]) [0..<W])]\<rparr>)
      else Inl ValueError)))"

text \<open>
  The loop of \<^verbatim>\<open>augment_all_images\<close> over \<open>range(N)\<close>. The call in the loop
  passes the literal \<^verbatim>\<open>pad=4\<close>, not the parameter.
\<close>

primrec augment_loop :: "ndarray4 \<Rightarrow> nat list \<Rightarrow> ndarray4 \<Rightarrow> rng \<Rightarrow> (error + ndarray4) \<times> rng" where
  "augment_loop initial_images [] new_images g = (Inr new_images, g)"
| "augment_loop initial_images (i # is) new_images g =
     (case augment_image (item4 initial_images i) 4 g of
        (Inl e, g') \<Rightarrow> (Inl e, g')
      | (Inr v, g') \<Rightarrow>
          (case assign_item new_images i v of
             Inl e \<Rightarrow> (Inl e, g')
           | Inr new_images' \<Rightarrow> augment_loop initial_images is new_images' g'))"

definition augment_all_images :: "ndarray4 \<Rightarrow> nat \<Rightarrow> rng \<Rightarrow> (error + ndarray4) \<times> rng" where
  "augment_all_images initial_images pad g =
     augment_loop initial_images [0..<length (data4 initial_images)]
       (zeros4 (length (data4 initial_images)) (shape_tail initial_images)) g"

subsection \<open>Normalization\<close>

definition np_mean :: "real list \<Rightarrow> real" where
  "np_mean xs = sum_list xs / real (length xs)"

definition np_std :: "real list \<Rightarrow> real" where
  "np_std xs = sqrt (np_mean (map (\<lambda>x. (x - np_mean xs)\<^sup>2) xs))"

text \<open>
  One round of the loop of \<^verbatim>\<open>normalize_image_by_chanel\<close>:
  \<^verbatim>\<open>image[:, :, chanel]\<close> raises IndexError when the image has no such channel.
\<close>

definition normalize_chanel :: "ndarray3 \<Rightarrow> nat \<Rightarrow> ndarray3 \<Rightarrow> error + ndarray3" where
  "normalize_chanel img chanel new_image = (case shape3 img of (h, w, c) \<Rightarrow>
     (if c \<le> chanel then Inl IndexError
      else (let vals = concat (map (map (\<lambda>px. px ! chanel)) (data3 img));
                mean = np_mean vals;
                std = np_std vals
            in Inr (new_image\<lparr>data3 :=
                 map (\<lambda>(row, new_row).
                        map (\<lambda>(px, new_px). new_px[chanel := (px ! chanel - mean) / std]) (zip row new_row))
                     (zip (data3 img) (data3 new_image))\<rparr>))))"

primrec normalize_chanels :: "ndarray3 \<Rightarrow> nat list \<Rightarrow> ndarray3 \<Rightarrow> error + ndarray3" where
  "normalize_chanels img [] new_image = Inr new_image"
| "normalize_chanels img (chanel # rest) new_image =
     (case normalize_chanel img chanel new_image of
        Inl e \<Rightarrow> Inl e
      | Inr new_image' \<Rightarrow> normalize_chanels img rest new_image')"

definition normalize_image_by_chanel :: "ndarray3 \<Rightarrow> error + ndarray3" where
  "normalize_image_by_chanel img = normalize_chanels img [0..<3] (zeros3 (shape3 img))"

primrec normalize_loop :: "ndarray4 \<Rightarrow> nat list \<Rightarrow> ndarray4 \<Rightarrow> error + ndarray4" where
  "normalize_loop initial_images [] new_images = Inr new_images"
| "normalize_loop initial_images (i # is) new_images =
     (case normalize_image_by_chanel (item4 initial_images i) of
        Inl e \<Rightarrow> Inl e
      | Inr v \<Rightarrow> normalize_loop initial_images is
                  (new_images\<lparr>data4 := (data4 new_images)[i := data3 v]\<rparr>))"

definition normalize_all_images_by_chanels :: "ndarray4 \<Rightarrow> error + ndarray4" where
  "normalize_all_images_by_chanels initial_images =
     normalize_loop initial_images [0..<length (data4 initial_images)]
       (zeros4 (length (data4 initial_images)) (shape_tail initial_images))"

text \<open>\<^verbatim>\<open>images / d\<close>: a new array, every element divided by \<open>d\<close>.\<close>

definition divide_all :: "ndarray4 \<Rightarrow> real \<Rightarrow> ndarray4" where
  "divide_all images d = images\<lparr>data4 := map (map (map (map (\<lambda>x. x / d)))) (data4 images)\<rparr>"

subsection \<open>The class CifarDataSet\<close>

text \<open>
  The attributes of a \<^verbatim>\<open>CifarDataSet\<close>. The constructor sets
  \<^verbatim>\<open>shuffle_every_epoch\<close> only in the three branches it knows, so the attribute
  may be missing (\<open>None\<close>); reading a missing attribute raises AttributeError.
  Labels are any type \<open>'l\<close>: class indices or one-hot rows.
\<close>

record 'l CifarDataSet =
  shuffle_every_epoch :: "bool option"
  images :: ndarray4
  labels :: "'l list"
  n_classes :: int
  augmentation :: bool
  normalization :: "string option"
  batch_counter :: int
  epoch_images :: ndarray4
  epoch_labels :: "'l list"

definition shuffle_images_labels ::
    "ndarray4 \<Rightarrow> 'l list \<Rightarrow> rng \<Rightarrow> (error + ndarray4 \<times> 'l list) \<times> rng" where
  "shuffle_images_labels imgs lbls g =
     (case permutation (length (data4 imgs)) g of (rand_indexes, g') \<Rightarrow>
        (case take_indices (data4 imgs) rand_indexes of
           Inl e \<Rightarrow> (Inl e, g')
         | Inr shuffled_images \<Rightarrow>
             (case take_indices lbls rand_indexes of
                Inl e \<Rightarrow> (Inl e, g')
              | Inr shuffled_labels \<Rightarrow> (Inr (imgs\<lparr>data4 := shuffled_images\<rparr>, shuffled_labels), g'))))"

text \<open>
  Lines 105 to 111 of \<^verbatim>\<open>start_new_epoch\<close>. \<^verbatim>\<open>if self.normalization:\<close> is
  Python truthiness: \<open>None\<close> and the empty string skip the block. A string that is
  none of the three modes falls through the \<^verbatim>\<open>elif\<close> chain and leaves the images
  as they are.
\<close>

definition normalize_epoch :: "string option \<Rightarrow> ndarray4 \<Rightarrow> error + ndarray4" where
  "normalize_epoch mode imgs =
     (case mode of
        None \<Rightarrow> Inr imgs
      | Some s \<Rightarrow>
          if s = [] then Inr imgs
          else if s = ''divide_255'' then Inr (divide_all imgs 255)
          else if s = ''divide_256'' then Inr (divide_all imgs 256)
          else if s = ''by_chanels'' then normalize_all_images_by_chanels imgs
          else Inr imgs)"

text \<open>
  \<^verbatim>\<open>start_new_epoch\<close> returns the outcome together with the object and the
  generator as the call leaves them: an exception keeps the assignments made before it.
\<close>

definition start_new_epoch ::
    "'l CifarDataSet \<Rightarrow> rng \<Rightarrow> (error + unit) \<times> 'l CifarDataSet \<times> rng" where
  "start_new_epoch self0 g =
     (let self = self0\<lparr>batch_counter := 0\<rparr> in
      case shuffle_every_epoch self of
        None \<Rightarrow> (Inl AttributeError, self, g)
      | Some every_epoch \<Rightarrow>
          (case (if every_epoch then shuffle_images_labels (images self) (labels self) g
                 else (Inr (images self, labels self), g)) of
             (Inl e, g1) \<Rightarrow> (Inl e, self, g1)
           | (Inr (imgs, lbls), g1) \<Rightarrow>
               (case (if augmentation self then augment_all_images imgs 4 g1 else (Inr imgs, g1)) of
                  (Inl e, g2) \<Rightarrow> (Inl e, self, g2)
                | (Inr imgs2, g2) \<Rightarrow>
                    (case normalize_epoch (normalization self) imgs2 of
                       Inl e \<Rightarrow> (Inl e, self, g2)
                     | Inr imgs3 \<Rightarrow>
                         (Inr (), self\<lparr>epoch_images := imgs3, epoch_labels := lbls\<rparr>, g2)))))"

text \<open>
  Modelled from the spec: the base class \<^verbatim>\<open>DataSet\<close> of
  \<^verbatim>\<open>base_provider.py\<close>, which is not among the sources. The spec gives an epoch
  dataset no shuffle setting besides the one its constructor derives from the mode
  string, so the base class is taken to define no attribute
  \<^verbatim>\<open>shuffle_every_epoch\<close>: after a mode string that matches no branch the
  attribute is missing.
\<close>

definition DataSet_shuffle_every_epoch :: "bool option" where
  "DataSet_shuffle_every_epoch = None"

text \<open>
  The constructor. An exception leaves no object, only the generator. The three
  attributes that \<^verbatim>\<open>start_new_epoch\<close> assigns do not exist before its call; it
  reads none of them and, when it returns, has assigned all three, so the values
  they have in the record passed to it are never seen.
\<close>

definition CifarDataSet_init ::
    "ndarray4 \<Rightarrow> 'l list \<Rightarrow> int \<Rightarrow> string option \<Rightarrow> string option \<Rightarrow> bool \<Rightarrow> rng
       \<Rightarrow> (error + 'l CifarDataSet) \<times> rng" where
  "CifarDataSet_init imgs lbls n shuffle norm_mode aug g =
     (case (case shuffle of
              None \<Rightarrow> (Inr (Some False, imgs, lbls), g)
            | Some s \<Rightarrow>
                if s = ''once_prior_train'' then
                  (case shuffle_images_labels imgs lbls g of
                     (Inl e, g') \<Rightarrow> (Inl e, g')
                   | (Inr (imgs', lbls'), g') \<Rightarrow> (Inr (Some False, imgs', lbls'), g'))
                else if s = ''every_epoch'' then (Inr (Some True, imgs, lbls), g)
                else (Inr (DataSet_shuffle_every_epoch, imgs, lbls), g)) of
        (Inl e, g1) \<Rightarrow> (Inl e, g1)
      | (Inr (every_epoch, imgs1, lbls1), g1) \<Rightarrow>
          (case start_new_epoch
                  \<lparr>shuffle_every_epoch = every_epoch, images = imgs1, labels = lbls1,
                   n_classes = n, augmentation = aug, normalization = norm_mode,
                   batch_counter = 0, epoch_images = imgs1, epoch_labels = lbls1\<rparr> g1 of
             (Inl e, self, g2) \<Rightarrow> (Inl e, g2)
           | (Inr u, self, g2) \<Rightarrow> (Inr self, g2)))"

definition num_examples :: "'l CifarDataSet \<Rightarrow> int" where
  "num_examples self = int (length (labels self))"

text \<open>
  \<^verbatim>\<open>next_batch\<close> calls itself after \<^verbatim>\<open>start_new_epoch\<close> and has no bound
  on the number of these calls: a call that does not return is \<open>None\<close>. A call that
  returns or raises is \<open>Some\<close> of the outcome, the object and the generator.
\<close>

partial_function (option) next_batch ::
    "int \<Rightarrow> 'l CifarDataSet \<Rightarrow> rng
       \<Rightarrow> ((error + ndarray4 \<times> 'l list) \<times> 'l CifarDataSet \<times> rng) option" where
  "next_batch batch_size self0 g =
     (let start = batch_counter self0 * batch_size;
          end = (batch_counter self0 + 1) * batch_size;
          self = self0\<lparr>batch_counter := batch_counter self0 + 1\<rparr>;
          images_slice = (epoch_images self)\<lparr>data4 :=
                            py_slice (Some start) (Some end) (data4 (epoch_images self))\<rparr>;
          labels_slice = py_slice (Some start) (Some end) (epoch_labels self)
      in if int (length (data4 images_slice)) \<noteq> batch_size then
           (case start_new_epoch self g of
              (Inl e, self', g') \<Rightarrow> Some (Inl e, self', g')
            | (Inr u, self', g') \<Rightarrow> next_batch batch_size self' g')
         else Some (Inr (images_slice, labels_slice), self, g))"

text \<open>
  The datasets that exist at run time: the constructor has returned for images and
  labels of equal length, and any number of calls of \<^verbatim>\<open>next_batch\<close> have
  returned since. The last two conjuncts hold because the constructor runs
  \<^verbatim>\<open>start_new_epoch\<close>, which raises for a non-empty corpus when augmentation is
  on, and when the mode is \<^verbatim>\<open>by_chanels\<close> and the images have fewer than three
  channels.
\<close>

definition ds_inv :: "'l CifarDataSet \<Rightarrow> bool" where
  "ds_inv self \<longleftrightarrow>
     shuffle_every_epoch self \<noteq> None
     \<and> length (data4 (images self)) = length (labels self)
     \<and> length (data4 (epoch_images self)) = length (labels self)
     \<and> length (epoch_labels self) = length (labels self)
     \<and> 0 \<le> batch_counter self
     \<and> (augmentation self \<longrightarrow> labels self = [])
     \<and> (normalization self = Some ''by_chanels'' \<longrightarrow>
           labels self = [] \<or> 3 \<le> snd (snd (shape_tail (images self))))"

text \<open>
  Alignment of the epoch buffers with the corpus. \<open>normalized_item\<close> is what the
  normalization of \<^verbatim>\<open>start_new_epoch\<close> makes of one image of the batch: the
  image itself, its elements divided by 255 or 256, or the result of
  \<^verbatim>\<open>normalize_image_by_chanel\<close>. A dataset is \<open>epoch_aligned\<close> when the pairs
  of epoch image and epoch label at equal positions are the pairs of normalized image
  and label at equal positions of the corpus, each as often as in the corpus.
\<close>

definition normalized_item :: "string option \<Rightarrow> nat \<times> nat \<times> nat \<Rightarrow> pixels3 \<Rightarrow> pixels3" where
  "normalized_item mode shape px =
     (case mode of
        None \<Rightarrow> px
      | Some s \<Rightarrow>
          if s = [] then px
          else if s = ''divide_255'' then map (map (map (\<lambda>x. x / 255))) px
          else if s = ''divide_256'' then map (map (map (\<lambda>x. x / 256))) px
          else if s = ''by_chanels'' then
            (case normalize_image_by_chanel \<lparr>shape3 = shape, data3 = px\<rparr> of
               Inl e \<Rightarrow> px
             | Inr v \<Rightarrow> data3 v)
          else px)"

definition corpus_pairs :: "'l CifarDataSet \<Rightarrow> (pixels3 \<times> 'l) list" where
  "corpus_pairs self =
     zip (map (normalized_item (normalization self) (shape_tail (images self))) (data4 (images self)))
         (labels self)"

definition epoch_aligned :: "'l CifarDataSet \<Rightarrow> bool" where
  "epoch_aligned self \<longleftrightarrow>
     mset (zip (data4 (epoch_images self)) (epoch_labels self)) = mset (corpus_pairs self)"

subsection \<open>Example data\<close>

text \<open>Two images of one pixel with three channels, and a dataset over them.\<close>

abbreviation two_images :: ndarray4 where
  "two_images \<equiv> \<lparr>shape_tail = (1, 1, 3), data4 = [[[[1, 2, 3]]], [[[4, 5, 6]]]]\<rparr>"

abbreviation example_dataset :: "int \<Rightarrow> int CifarDataSet" where
  "example_dataset c \<equiv>
     \<lparr>shuffle_every_epoch = Some False, images = two_images, labels = [7, 8], n_classes = 10,
      augmentation = False, normalization = None, batch_counter = c,
      epoch_images = two_images, epoch_labels = [7, 8]\<rparr>"

abbreviation five_images :: ndarray4 where
  "five_images \<equiv> \<lparr>shape_tail = (1, 1, 1), data4 = [[[[0]]], [[[1]]], [[[2]]], [[[3]]], [[[4]]]]\<rparr>"

text \<open>The dataset that the constructor returns when no option is set.\<close>

abbreviation plain_dataset :: "ndarray4 \<Rightarrow> int list \<Rightarrow> int CifarDataSet" where
  "plain_dataset imgs lbls \<equiv>
     \<lparr>shuffle_every_epoch = Some False, images = imgs, labels = lbls, n_classes = 10,
      augmentation = False, normalization = None, batch_counter = 0,
      epoch_images = imgs, epoch_labels = lbls\<rparr>"

subsection \<open>The class CifarDataProvider\<close>

text \<open>
  \<^verbatim>\<open>CifarDataProvider\<close> is abstract; the four classes that can be instantiated
  fix \<^verbatim>\<open>_n_classes\<close> and \<^verbatim>\<open>data_augmentation\<close>.
\<close>

datatype provider =
  Cifar10DataProvider | Cifar100DataProvider
| Cifar10AugmentedDataProvider | Cifar100AugmentedDataProvider

fun n_classes_of :: "provider \<Rightarrow> nat" where
  "n_classes_of Cifar10DataProvider = 10"
| "n_classes_of Cifar100DataProvider = 100"
| "n_classes_of Cifar10AugmentedDataProvider = 10"
| "n_classes_of Cifar100AugmentedDataProvider = 100"

fun data_augmentation :: "provider \<Rightarrow> bool" where
  "data_augmentation Cifar10DataProvider = False"
| "data_augmentation Cifar100DataProvider = False"
| "data_augmentation Cifar10AugmentedDataProvider = True"
| "data_augmentation Cifar100AugmentedDataProvider = True"

text \<open>
  \<^verbatim>\<open>new_labels[range(n), labels] = np.ones(labels.shape)\<close>: row \<open>i\<close> gets a one
  in column \<open>labels[i]\<close>. A negative index counts from the end of the row, an index
  outside \<open>[-n_classes, n_classes)\<close> raises IndexError before anything is assigned.
\<close>

definition labels_to_one_hot :: "provider \<Rightarrow> int list \<Rightarrow> error + ndarray2" where
  "labels_to_one_hot self lbls =
     (let nc = n_classes_of self in
      if \<forall>l \<in> set lbls. - int nc \<le> l \<and> l < int nc then
        Inr \<lparr>shape2 = (length lbls, nc),
             data2 = map (\<lambda>l. (replicate nc 0)[nat (if l < 0 then l + int nc else l) := 1]) lbls\<rparr>
      else Inl IndexError)"

text \<open>
  \<^verbatim>\<open>np.argmax\<close> along a row: the index of the first greatest element.
\<close>

primrec argmax_scan :: "real list \<Rightarrow> nat \<Rightarrow> real \<Rightarrow> nat \<Rightarrow> nat" where
  "argmax_scan [] i best best_i = best_i"
| "argmax_scan (x # xs) i best best_i =
     (if best < x then argmax_scan xs (Suc i) x i else argmax_scan xs (Suc i) best best_i)"

definition argmax_row :: "real list \<Rightarrow> nat" where
  "argmax_row row = (case row of [] \<Rightarrow> 0 | x # xs \<Rightarrow> argmax_scan xs 1 x 0)"

text \<open>
  \<^verbatim>\<open>np.argmax(labels, axis=1)\<close> raises ValueError when the second axis is empty.
\<close>

definition labels_from_one_hot :: "provider \<Rightarrow> ndarray2 \<Rightarrow> error + int list" where
  "labels_from_one_hot self lbls = (case shape2 lbls of (n, m) \<Rightarrow>
     (if m = 0 then Inl ValueError else Inr (map (\<lambda>row. int (argmax_row row)) (data2 lbls))))"

text \<open>
  The options of \<^verbatim>\<open>train_params\<close> that the constructor reads with
  \<^verbatim>\<open>.get(key, None)\<close>. The split fraction is a Python float, given by the real
  number that the double is.
\<close>

record train_params =
  validation_set :: "bool option"
  validation_split :: "real option"
  shuffle_mode :: "string option"
  normalization_mode :: "string option"

text \<open>
  Python floats are IEEE 754 doubles: the result of an operation is the exact result
  rounded to the nearest number with 53 significant bits, a tie going to the even
  significand. \<open>u\<close> is the unit in the last place, which stops shrinking at the
  exponent \<open>-1022\<close> (subnormal numbers). A result beyond \<open>double_max\<close> is an
  infinity.
\<close>

definition round_half_even :: "real \<Rightarrow> int" where
  "round_half_even x =
     (let n = \<lfloor>x\<rfloor>; d = x - of_int n
      in if d < 1 / 2 then n else if 1 / 2 < d then n + 1 else if even n then n else n + 1)"

definition round_double :: "real \<Rightarrow> real" where
  "round_double x =
     (if x = 0 then 0
      else (let e = max \<lfloor>log 2 \<bar>x\<bar>\<rfloor> (- 1022);
                u = 2 powr (of_int e - 52)
            in of_int (round_half_even (x / u)) * u))"

definition double_max :: real where
  "double_max = (2 ^ 53 - 1) * 2 ^ 971"

definition float_sub :: "real \<Rightarrow> real \<Rightarrow> real" where
  "float_sub a b = round_double (a - b)"

definition float_mul :: "real \<Rightarrow> real \<Rightarrow> real" where
  "float_mul a b = round_double (a * b)"

text \<open>\<^verbatim>\<open>int(x)\<close> of a float rounds towards zero.\<close>

definition py_int :: "real \<Rightarrow> int" where
  "py_int x = (if 0 \<le> x then \<lfloor>x\<rfloor> else \<lceil>x\<rceil>)"

text \<open>
  The attribute \<^verbatim>\<open>validation\<close> is missing, a dataset of its own, or the very
  object that \<^verbatim>\<open>test\<close> holds.
\<close>

datatype 'l validation_slot = Unset | Own "'l CifarDataSet" | Test_alias

record 'l CifarDataProvider =
  train :: "'l CifarDataSet"
  validation :: "'l validation_slot"
  test :: "'l CifarDataSet"

text \<open>
  Lines 166 to 183: the datasets for training and validation, from the corpus that
  \<^verbatim>\<open>read_cifar(train_fnames)\<close> decoded.
\<close>

text \<open>
  Line 167, \<^verbatim>\<open>int(images.shape[0] * (1 - validation_split))\<close>: the difference
  and the product are float operations. The difference is evaluated first; the length
  is then converted to a float, which raises OverflowError when it is beyond the
  doubles. \<^verbatim>\<open>int\<close> of an infinity raises OverflowError, \<^verbatim>\<open>int\<close> of the
  not-a-number that zero times infinity is raises ValueError.
\<close>

definition split_idx_of :: "ndarray4 \<Rightarrow> real \<Rightarrow> error + int" where
  "split_idx_of imgs f =
     (let n = round_double (real (length (data4 imgs)));
          d = float_sub 1 f
      in if double_max < n then Inl OverflowError
         else if double_max < \<bar>d\<bar> then (if n = 0 then Inl ValueError else Inl OverflowError)
         else (let x = float_mul n d
               in if double_max < \<bar>x\<bar> then Inl OverflowError else Inr (py_int x)))"

definition train_validation ::
    "provider \<Rightarrow> train_params \<Rightarrow> ndarray4 \<Rightarrow> 'l list \<Rightarrow> rng
       \<Rightarrow> (error + 'l CifarDataSet \<times> 'l validation_slot) \<times> rng" where
  "train_validation self params imgs lbls g =
     (case (validation_set params, validation_split params) of
        (Some vs, Some f) \<Rightarrow>
          (case split_idx_of imgs f of
             Inl e \<Rightarrow> (Inl e, g)
           | Inr split_idx \<Rightarrow>
               (case CifarDataSet_init (imgs\<lparr>data4 := py_slice None (Some split_idx) (data4 imgs)\<rparr>)
                       (py_slice None (Some split_idx) lbls) (int (n_classes_of self))
                       (shuffle_mode params) (normalization_mode params) (data_augmentation self) g of
                  (Inl e, g1) \<Rightarrow> (Inl e, g1)
                | (Inr tr, g1) \<Rightarrow>
                    (case CifarDataSet_init (imgs\<lparr>data4 := py_slice (Some split_idx) None (data4 imgs)\<rparr>)
                            (py_slice (Some split_idx) None lbls) (int (n_classes_of self))
                            (shuffle_mode params) (normalization_mode params) (data_augmentation self) g1 of
                       (Inl e, g2) \<Rightarrow> (Inl e, g2)
                     | (Inr va, g2) \<Rightarrow> (Inr (tr, Own va), g2))))
      | _ \<Rightarrow>
          (case CifarDataSet_init imgs lbls (int (n_classes_of self))
                  (shuffle_mode params) (normalization_mode params) (data_augmentation self) g of
             (Inl e, g1) \<Rightarrow> (Inl e, g1)
           | (Inr tr, g1) \<Rightarrow> (Inr (tr, Unset), g1)))"

text \<open>
  The constructor from line 164 on, given the two corpora that \<^verbatim>\<open>read_cifar\<close>
  decoded from the training files and from the test files (download and decoding are
  input and output, outside the model). The last statement tests its two options for
  truth: \<open>None\<close>, \<open>False\<close> and \<open>0.0\<close> are false.
\<close>

definition CifarDataProvider_init ::
    "provider \<Rightarrow> train_params \<Rightarrow> ndarray4 \<times> 'l list \<Rightarrow> ndarray4 \<times> 'l list \<Rightarrow> rng
       \<Rightarrow> (error + 'l CifarDataProvider) \<times> rng" where
  "CifarDataProvider_init self params train_corpus test_corpus g =
     (case train_validation self params (fst train_corpus) (snd train_corpus) g of
        (Inl e, g1) \<Rightarrow> (Inl e, g1)
      | (Inr (tr, va), g1) \<Rightarrow>
          (case CifarDataSet_init (fst test_corpus) (snd test_corpus) (int (n_classes_of self))
                  (shuffle_mode params) (normalization_mode params) False g1 of
             (Inl e, g2) \<Rightarrow> (Inl e, g2)
           | (Inr te, g2) \<Rightarrow>
               (Inr \<lparr>train = tr,
                     validation =
                       (if validation_set params = Some True
                           \<and> (validation_split params = None \<or> validation_split params = Some 0)
                        then Test_alias else va),
                     test = te\<rparr>, g2)))"

section \<open>Verified properties\<close>

subsection \<open>Generator, slices, permutations\<close>

lemma draw_const [simp]: "draw (const_rng k) = (k, const_rng k)"
  by (simp add: draw_def const_rng_def)

lemma draw_const' [simp]: "(\<lambda>i. const_rng k (Suc i)) = const_rng k"
  by (simp add: const_rng_def)

text \<open>
  The model of the generator restricts no draw: \<open>randint\<close> has exactly the values of
  its range, and \<open>perm_decode\<close> has exactly the permutations of \<open>[0..<n]\<close>.
\<close>

lemma randint_range:
  assumes "fst (randint low high g) = Inr v"
  shows "low \<le> v \<and> v < high"
proof -
  from assms have lt: "low < high" and v: "v = low + int (g 0 mod nat (high - low))"
    by (auto simp: randint_def draw_def split: if_splits)
  from lt have "g 0 mod nat (high - low) < nat (high - low)" by simp
  with v lt show ?thesis by linarith
qed

lemma randint_every_value:
  assumes "low \<le> v" "v < high"
  shows "fst (randint low high (const_rng (nat (v - low)))) = Inr v"
  using assms by (simp add: randint_def)

lemma length_py_slice:
  "0 \<le> s \<Longrightarrow> s \<le> e \<Longrightarrow>
   length (py_slice (Some s) (Some e) xs) = min (nat e) (length xs) - min (nat s) (length xs)"
  by (simp add: py_slice_def slice_bound_def Let_def)

lemma py_slice_take_drop:
  "0 \<le> s \<Longrightarrow> s \<le> e \<Longrightarrow> nat e \<le> length xs \<Longrightarrow>
   py_slice (Some s) (Some e) xs = take (nat (e - s)) (drop (nat s) xs)"
  by (simp add: py_slice_def slice_bound_def Let_def min_def nat_diff_distrib)

lemma mset_insert_at: "mset (insert_at k x xs) = add_mset x (mset xs)"
proof -
  have "mset (take k xs) + mset (drop k xs) = mset xs"
    by (metis append_take_drop_id mset_append)
  then show ?thesis by (simp add: insert_at_def)
qed

lemma mset_perm_decode: "mset (perm_decode n r) = mset [0..<n]"
proof (induction n arbitrary: r)
  case 0
  show ?case by simp
next
  case (Suc n)
  have "mset (perm_decode (Suc n) r) = add_mset n (mset (perm_decode n (r div Suc n)))"
    by (simp add: mset_insert_at)
  also have "\<dots> = add_mset n (mset [0..<n])" by (simp only: Suc.IH)
  also have "\<dots> = mset ([0..<n] @ [n])" by (simp del: mset_upt)
  also have "[0..<n] @ [n] = [0..<Suc n]" by simp
  finally show ?case .
qed

lemma set_perm_decode: "set (perm_decode n r) = {0..<n}"
  using mset_perm_decode [of n r] by (metis mset_eq_setD set_upt)

lemma length_perm_decode: "length (perm_decode n r) = n"
  using mset_perm_decode [of n r] by (metis mset_eq_length length_upt diff_zero)

lemma perm_decode_every_permutation:
  "mset p = mset [0..<n] \<Longrightarrow> \<exists>r. perm_decode n r = p"
proof (induction n arbitrary: p)
  case 0
  then show ?case by simp
next
  case (Suc n)
  from Suc.prems have "n \<in> set p" by (metis mset_eq_setD set_upt atLeastLessThan_iff lessI zero_le)
  then obtain ys zs where p: "p = ys @ n # zs" by (meson split_list)
  from Suc.prems have "mset p = add_mset n (mset [0..<n])"
    by (simp del: mset_upt)
  with p have m: "mset (ys @ zs) = mset [0..<n]" by simp
  from Suc.IH [OF m] obtain r' where r': "perm_decode n r' = ys @ zs" ..
  from m have "length (ys @ zs) = n" by (metis mset_eq_length length_upt diff_zero)
  then have k: "length ys < Suc n" by simp
  let ?r = "length ys + Suc n * r'"
  have "?r mod Suc n = length ys" using k by (simp del: mult_Suc)
  moreover have "?r div Suc n = r'" using k by (simp del: mult_Suc)
  ultimately have "perm_decode (Suc n) ?r = insert_at (length ys) n (ys @ zs)"
    using r' by simp
  also have "\<dots> = p" by (simp add: insert_at_def p)
  finally show ?case by blast
qed

lemma take_indices_perm:
  "n \<le> length xs \<Longrightarrow> take_indices xs (perm_decode n r) = Inr (map (\<lambda>i. xs ! i) (perm_decode n r))"
  by (auto simp: take_indices_def set_perm_decode)

lemma mset_map_nth_perm:
  assumes "mset p = mset [0..<length zs]"
  shows "mset (map (\<lambda>i. zs ! i) p) = mset zs"
proof -
  have "mset (map (\<lambda>i. zs ! i) p) = image_mset (\<lambda>i. zs ! i) (mset p)" by simp
  also have "\<dots> = mset (map (\<lambda>i. zs ! i) [0..<length zs])" using assms by simp
  also have "\<dots> = mset zs" by (simp add: map_nth)
  finally show ?thesis .
qed

lemma mset_zip_map_nth:
  assumes "mset p = mset [0..<length ys]" "length xs = length ys"
  shows "mset (zip (map (\<lambda>i. xs ! i) p) (map (\<lambda>i. ys ! i) p)) = mset (zip xs ys)"
proof -
  have s: "set p = {0..<length ys}" using assms(1) by (metis mset_eq_setD set_upt)
  have "zip (map (\<lambda>i. xs ! i) p) (map (\<lambda>i. ys ! i) p) = map (\<lambda>i. (xs ! i, ys ! i)) p"
    by (simp add: zip_map_map zip_same_conv_map)
  also have "\<dots> = map (\<lambda>i. zip xs ys ! i) p" using s assms(2) by auto
  finally have "mset (zip (map (\<lambda>i. xs ! i) p) (map (\<lambda>i. ys ! i) p))
      = mset (map (\<lambda>i. zip xs ys ! i) p)" by simp
  also have "\<dots> = mset (zip xs ys)"
    using assms by (intro mset_map_nth_perm) simp
  finally show ?thesis .
qed

subsection \<open>Augmentation\<close>

lemma shape3_zero_pad: "shape3 (zero_pad img pad) = (fst (shape3 img) + pad * 2, fst (snd (shape3 img)) + pad * 2, snd (snd (shape3 img)))"
  by (simp add: zero_pad_def Let_def split: prod.splits)

lemma crop_channel_raises: "snd (snd (shape3 a)) \<le> k \<Longrightarrow> crop_channel a x0 x1 y0 y1 k = Inl IndexError"
  by (auto simp: crop_channel_def split: prod.splits)

lemma augment_image_raises:
  "fst (augment_image img pad g) = Inl (if pad = 0 then ValueError else IndexError)"
  by (simp add: augment_image_def randint_def Let_def crop_channel_raises shape3_zero_pad
      split: prod.splits)

lemma augment_loop_raises:
  "fst (augment_loop imgs (i # is) new g) = Inl IndexError"
proof -
  obtain r g' where r: "augment_image (item4 imgs i) 4 g = (r, g')"
    by (cases "augment_image (item4 imgs i) 4 g")
  with augment_image_raises [of "item4 imgs i" 4 g] have "r = Inl IndexError" by simp
  with r show ?thesis by simp
qed

lemma augment_all_images_nonempty:
  "data4 imgs \<noteq> [] \<Longrightarrow> fst (augment_all_images imgs pad g) = Inl IndexError"
  by (simp add: augment_all_images_def upt_conv_Cons augment_loop_raises del: augment_loop.simps)

lemma augment_all_images_empty:
  "data4 imgs = [] \<Longrightarrow>
   augment_all_images imgs pad g = (Inr \<lparr>shape_tail = shape_tail imgs, data4 = []\<rparr>, g)"
  by (simp add: augment_all_images_def zeros4_def)

text \<open>
  Claim C2, which the code does not meet. The claim: for a batch of shape
  \<open>(N, H, W, C)\<close> and a padding \<open>P \<ge> 0\<close> the augmentation returns a batch of the
  same shape, every image padded, cropped and with all its channels, and for
  \<open>P = 0\<close> the crop is at offset \<open>0\<close>. The code: the crop indexes the channel axis
  with the integer \<open>C\<close>, which is out of range for an axis of length \<open>C\<close>. So
  \<^verbatim>\<open>augment_image\<close> returns for no image, no padding and no state of the
  generator: it raises IndexError, and for \<open>P = 0\<close> it raises ValueError before, at
  the draw from the empty range \<open>[0, 0)\<close>. And \<^verbatim>\<open>augment_all_images\<close>, which
  passes the padding 4 whatever its argument is, raises IndexError for every batch
  with at least one image and returns no batch.
\<close>

theorem augmentation_raises:
  "fst (augment_image img pad g) = Inl (if pad = 0 then ValueError else IndexError)
   \<and> (data4 imgs \<noteq> [] \<longrightarrow> fst (augment_all_images imgs pad g) = Inl IndexError)"
  using augment_image_raises [of img pad g] augment_all_images_nonempty [of imgs pad g]
  by simp

theorem augmentation_raises_witness:
  "data4 \<lparr>shape_tail = (1, 1, 3), data4 = [[[[1, 2, 3]]]]\<rparr> \<noteq> []
   \<and> fst (augment_image \<lparr>shape3 = (1, 1, 3), data3 = [[[1, 2, 3]]]\<rparr> 0 (const_rng 0))
       = Inl ValueError
   \<and> fst (augment_all_images \<lparr>shape_tail = (1, 1, 3), data4 = [[[[1, 2, 3]]]]\<rparr> 0 (const_rng 0))
       = Inl IndexError"
  using augmentation_raises [of "\<lparr>shape3 = (1, 1, 3), data3 = [[[1, 2, 3]]]\<rparr>" 0 "const_rng 0"
      "\<lparr>shape_tail = (1, 1, 3), data4 = [[[[1, 2, 3]]]]\<rparr>"]
  by simp

text \<open>
  Claim C4, which the code does not meet. The claim: the mirror flip is a random draw
  with both outcomes. The code: \<^verbatim>\<open>np.random.randint(0, 1)\<close> has the single value
  \<open>0\<close>, so for every state of the generator the flip is off and the crop is returned
  as it is, never mirrored.
\<close>

theorem flip_never_drawn:
  "fst (randint 0 1 g) = Inr 0 \<and> fst (maybe_mirror cropped g) = Inr cropped"
  by (simp add: maybe_mirror_def randint_def split: prod.splits)

subsection \<open>Normalization\<close>

lemma normalize_chanel_ok:
  "chanel < snd (snd (shape3 img)) \<Longrightarrow>
   \<exists>d. normalize_chanel img chanel new = Inr (new\<lparr>data3 := d\<rparr>)"
  by (auto simp: normalize_chanel_def Let_def split: prod.splits)

lemma normalize_chanel_raises:
  "snd (snd (shape3 img)) \<le> chanel \<Longrightarrow> normalize_chanel img chanel new = Inl IndexError"
  by (auto simp: normalize_chanel_def Let_def split: prod.splits)

lemma normalize_chanels_ok:
  "\<forall>ch \<in> set chs. ch < snd (snd (shape3 img)) \<Longrightarrow>
   \<exists>r. normalize_chanels img chs new = Inr r"
proof (induction chs arbitrary: new)
  case Nil
  show ?case by simp
next
  case (Cons ch chs)
  then obtain d where "normalize_chanel img ch new = Inr (new\<lparr>data3 := d\<rparr>)"
    using normalize_chanel_ok [of ch img new] by auto
  with Cons show ?case by simp
qed

lemma normalize_chanels_raises:
  "\<exists>ch \<in> set chs. snd (snd (shape3 img)) \<le> ch \<Longrightarrow>
   \<exists>e. normalize_chanels img chs new = Inl e"
proof (induction chs arbitrary: new)
  case Nil
  then show ?case by simp
next
  case (Cons ch chs)
  show ?case
  proof (cases "snd (snd (shape3 img)) \<le> ch")
    case True
    then show ?thesis by (simp add: normalize_chanel_raises)
  next
    case False
    then obtain d where "normalize_chanel img ch new = Inr (new\<lparr>data3 := d\<rparr>)"
      using normalize_chanel_ok [of ch img new] by auto
    with Cons False show ?thesis by simp
  qed
qed

lemma normalize_image_ok:
  "3 \<le> snd (snd (shape3 img)) \<Longrightarrow> \<exists>r. normalize_image_by_chanel img = Inr r"
  unfolding normalize_image_by_chanel_def by (rule normalize_chanels_ok) auto

lemma normalize_image_raises:
  "snd (snd (shape3 img)) < 3 \<Longrightarrow> \<exists>e. normalize_image_by_chanel img = Inl e"
  unfolding normalize_image_by_chanel_def
  by (rule normalize_chanels_raises) (auto intro: bexI [of _ 2])

lemma normalize_loop_ok:
  "3 \<le> snd (snd (shape_tail imgs)) \<Longrightarrow>
   \<exists>r. normalize_loop imgs is new = Inr r \<and> shape_tail r = shape_tail new
        \<and> length (data4 r) = length (data4 new)"
proof (induction "is" arbitrary: new)
  case Nil
  show ?case by simp
next
  case (Cons i "is")
  from Cons.prems obtain v where "normalize_image_by_chanel (item4 imgs i) = Inr v"
    using normalize_image_ok [of "item4 imgs i"] by (auto simp: item4_def)
  with Cons.IH [OF Cons.prems, of "new\<lparr>data4 := (data4 new)[i := data3 v]\<rparr>"]
  show ?case by simp
qed

lemma normalize_all_ok:
  assumes "data4 imgs = [] \<or> 3 \<le> snd (snd (shape_tail imgs))"
  shows "\<exists>r. normalize_all_images_by_chanels imgs = Inr r \<and> shape_tail r = shape_tail imgs
           \<and> length (data4 r) = length (data4 imgs)"
proof (cases "data4 imgs = []")
  case True
  then show ?thesis by (simp add: normalize_all_images_by_chanels_def zeros4_def)
next
  case False
  with assms have "3 \<le> snd (snd (shape_tail imgs))" by simp
  from normalize_loop_ok [OF this, of "[0..<length (data4 imgs)]"
      "zeros4 (length (data4 imgs)) (shape_tail imgs)"]
  show ?thesis
    by (simp add: normalize_all_images_by_chanels_def zeros4_def)
qed

lemma normalize_all_raises:
  assumes "data4 imgs \<noteq> []" "snd (snd (shape_tail imgs)) < 3"
  shows "\<exists>e. normalize_all_images_by_chanels imgs = Inl e"
proof -
  obtain e where "normalize_image_by_chanel (item4 imgs 0) = Inl e"
    using normalize_image_raises [of "item4 imgs 0"] assms(2) by (auto simp: item4_def)
  with assms(1) show ?thesis
    by (simp add: normalize_all_images_by_chanels_def upt_conv_Cons)
qed

lemma normalize_epoch_ok:
  assumes "mode = Some ''by_chanels'' \<longrightarrow> data4 imgs = [] \<or> 3 \<le> snd (snd (shape_tail imgs))"
  shows "\<exists>r. normalize_epoch mode imgs = Inr r \<and> shape_tail r = shape_tail imgs
           \<and> length (data4 r) = length (data4 imgs)"
proof (cases "mode = Some ''by_chanels''")
  case True
  with assms normalize_all_ok [of imgs] show ?thesis by (simp add: normalize_epoch_def)
next
  case False
  then show ?thesis by (auto simp: normalize_epoch_def divide_all_def split: option.splits)
qed

lemma normalize_epoch_returns:
  assumes "normalize_epoch mode imgs = Inr r"
  shows "mode = Some ''by_chanels'' \<longrightarrow> data4 imgs = [] \<or> 3 \<le> snd (snd (shape_tail imgs))"
proof (rule ccontr)
  assume "\<not> ?thesis"
  then have m: "mode = Some ''by_chanels''" and "data4 imgs \<noteq> []" "snd (snd (shape_tail imgs)) < 3"
    by auto
  from normalize_all_raises [OF this(2,3)] m assms show False
    by (auto simp: normalize_epoch_def)
qed

text \<open>
  Normalization works image by image: what it returns for a batch is
  \<open>normalized_item\<close> of every image of the batch.
\<close>

lemma normalize_loop_nth:
  assumes "normalize_loop imgs is new = Inr r"
    and "\<forall>i \<in> set is. i < length (data4 new)"
  shows "length (data4 r) = length (data4 new)
         \<and> (\<forall>j < length (data4 new). data4 r ! j =
               (if j \<in> set is
                then normalized_item (Some ''by_chanels'') (shape_tail imgs) (data4 imgs ! j)
                else data4 new ! j))"
  using assms
proof (induction "is" arbitrary: new)
  case Nil
  then show ?case by simp
next
  case (Cons i "is")
  from Cons.prems(1) obtain v where v: "normalize_image_by_chanel (item4 imgs i) = Inr v"
    and rest: "normalize_loop imgs is (new\<lparr>data4 := (data4 new)[i := data3 v]\<rparr>) = Inr r"
    by (auto split: sum.splits)
  let ?new = "new\<lparr>data4 := (data4 new)[i := data3 v]\<rparr>"
  from Cons.prems(2) have b: "\<forall>k \<in> set is. k < length (data4 ?new)" and i: "i < length (data4 new)"
    by simp_all
  note IH = Cons.IH [OF rest b]
  have nv: "normalized_item (Some ''by_chanels'') (shape_tail imgs) (data4 imgs ! i) = data3 v"
    using v by (simp add: normalized_item_def item4_def)
  show ?case
  proof (intro conjI allI impI)
    show "length (data4 r) = length (data4 new)" using IH by simp
  next
    fix j assume j: "j < length (data4 new)"
    with IH have e: "data4 r ! j =
        (if j \<in> set is
         then normalized_item (Some ''by_chanels'') (shape_tail imgs) (data4 imgs ! j)
         else (data4 new)[i := data3 v] ! j)" by simp
    show "data4 r ! j =
        (if j \<in> set (i # is)
         then normalized_item (Some ''by_chanels'') (shape_tail imgs) (data4 imgs ! j)
         else data4 new ! j)"
      using e j i nv by (cases "j = i") auto
  qed
qed

lemma normalize_all_map:
  assumes "normalize_all_images_by_chanels imgs = Inr r"
  shows "data4 r = map (normalized_item (Some ''by_chanels'') (shape_tail imgs)) (data4 imgs)"
proof -
  let ?n = "length (data4 imgs)"
  from assms have l: "normalize_loop imgs [0..<?n] (zeros4 ?n (shape_tail imgs)) = Inr r"
    by (simp add: normalize_all_images_by_chanels_def)
  have "\<forall>i \<in> set [0..<?n]. i < length (data4 (zeros4 ?n (shape_tail imgs)))"
    by (simp add: zeros4_def)
  from normalize_loop_nth [OF l this]
  have len: "length (data4 r) = ?n"
    and nth: "\<forall>j < ?n. data4 r ! j =
                normalized_item (Some ''by_chanels'') (shape_tail imgs) (data4 imgs ! j)"
    by (simp_all add: zeros4_def)
  show ?thesis by (rule nth_equalityI) (simp_all add: len nth)
qed

lemma normalize_epoch_map:
  assumes "normalize_epoch mode imgs = Inr r"
  shows "data4 r = map (normalized_item mode (shape_tail imgs)) (data4 imgs)"
proof (cases "mode = Some ''by_chanels''")
  case True
  with assms normalize_all_map [of imgs r] show ?thesis by (simp add: normalize_epoch_def)
next
  case False
  with assms show ?thesis
    by (auto simp: normalize_epoch_def normalized_item_def divide_all_def fun_eq_iff map_idI
             split: option.splits if_splits)
qed

subsection \<open>Shuffling\<close>

lemma shuffle_images_labels_eq:
  assumes "length lbls = length (data4 imgs)"
  shows "shuffle_images_labels imgs lbls g =
           (Inr (imgs\<lparr>data4 := map (\<lambda>i. data4 imgs ! i) (perm_decode (length lbls) (g 0))\<rparr>,
                 map (\<lambda>i. lbls ! i) (perm_decode (length lbls) (g 0))), \<lambda>i. g (Suc i))"
  using assms by (simp add: shuffle_images_labels_def permutation_def draw_def take_indices_perm)

text \<open>
  Claim C7. For a corpus whose images and labels have equal length, and for every
  state of the generator, \<^verbatim>\<open>shuffle_images_labels\<close> returns the images and the
  labels indexed by one and the same permutation \<open>p\<close> of \<open>[0..<N]\<close>: the two
  results have equal length, position \<open>i\<close> of both holds the image and the label of
  the original example \<open>p ! i\<close>, and the pairs of the result are the pairs of the
  corpus, each as often as before.
\<close>

theorem shuffle_keeps_alignment:
  assumes "length lbls = length (data4 imgs)"
  shows "\<exists>p g'. mset p = mset [0..<length lbls]
           \<and> shuffle_images_labels imgs lbls g =
               (Inr (imgs\<lparr>data4 := map (\<lambda>i. data4 imgs ! i) p\<rparr>, map (\<lambda>i. lbls ! i) p), g')
           \<and> length (map (\<lambda>i. data4 imgs ! i) p) = length (map (\<lambda>i. lbls ! i) p)
           \<and> zip (map (\<lambda>i. data4 imgs ! i) p) (map (\<lambda>i. lbls ! i) p)
               = map (\<lambda>i. (data4 imgs ! i, lbls ! i)) p
           \<and> mset (zip (map (\<lambda>i. data4 imgs ! i) p) (map (\<lambda>i. lbls ! i) p))
               = mset (zip (data4 imgs) lbls)"
proof -
  let ?n = "length (data4 imgs)"
  let ?p = "perm_decode ?n (g 0)"
  let ?g = "\<lambda>i. g (Suc i)"
  have p: "mset ?p = mset [0..<length lbls]" using assms by (simp add: mset_perm_decode)
  have run: "shuffle_images_labels imgs lbls g =
      (Inr (imgs\<lparr>data4 := map (\<lambda>i. data4 imgs ! i) ?p\<rparr>, map (\<lambda>i. lbls ! i) ?p), ?g)"
    using assms by (simp add: shuffle_images_labels_def permutation_def draw_def take_indices_perm)
  have z: "zip (map (\<lambda>i. data4 imgs ! i) ?p) (map (\<lambda>i. lbls ! i) ?p)
             = map (\<lambda>i. (data4 imgs ! i, lbls ! i)) ?p"
    by (simp add: zip_map_map zip_same_conv_map)
  have e: "map (\<lambda>i. (data4 imgs ! i, lbls ! i)) ?p = map (\<lambda>i. zip (data4 imgs) lbls ! i) ?p"
    using assms by (auto simp: set_perm_decode)
  have "mset ?p = mset [0..<length (zip (data4 imgs) lbls)]"
    using p assms by simp
  then have "mset (map (\<lambda>i. zip (data4 imgs) lbls ! i) ?p) = mset (zip (data4 imgs) lbls)"
    by (rule mset_map_nth_perm)
  with z e have m: "mset (zip (map (\<lambda>i. data4 imgs ! i) ?p) (map (\<lambda>i. lbls ! i) ?p))
      = mset (zip (data4 imgs) lbls)" by (simp only:)
  from p run z m show ?thesis by (intro exI [of _ ?p] exI [of _ ?g]) simp
qed

theorem shuffle_keeps_alignment_witness:
  "length [7, 8 :: int] = length (data4 two_images)
   \<and> (\<exists>p g'. mset p = mset [0..<length [7, 8 :: int]]
           \<and> shuffle_images_labels two_images [7, 8 :: int] (const_rng 1) =
               (Inr (two_images\<lparr>data4 := map (\<lambda>i. data4 two_images ! i) p\<rparr>,
                     map (\<lambda>i. [7, 8] ! i) p), g')
           \<and> mset (zip (map (\<lambda>i. data4 two_images ! i) p) (map (\<lambda>i. [7, 8 :: int] ! i) p))
               = mset (zip (data4 two_images) [7, 8]))"
  using shuffle_keeps_alignment [of "[7, 8 :: int]" two_images "const_rng 1"]
  by auto

subsection \<open>Epochs\<close>

lemma start_new_epoch_unset:
  "shuffle_every_epoch self = None \<Longrightarrow>
   start_new_epoch self g = (Inl AttributeError, self\<lparr>batch_counter := 0\<rparr>, g)"
  by (simp add: start_new_epoch_def Let_def)

lemma start_new_epoch_plain:
  "shuffle_every_epoch self = Some False \<Longrightarrow> \<not> augmentation self \<Longrightarrow>
   normalize_epoch (normalization self) (images self) = Inr imgs3 \<Longrightarrow>
   start_new_epoch self g =
     (Inr (), self\<lparr>batch_counter := 0, epoch_images := imgs3, epoch_labels := labels self\<rparr>, g)"
  by (simp add: start_new_epoch_def Let_def)

lemma start_new_epoch_frame:
  "start_new_epoch self g = (r, self', g') \<Longrightarrow>
   images self' = images self \<and> labels self' = labels self
   \<and> shuffle_every_epoch self' = shuffle_every_epoch self
   \<and> augmentation self' = augmentation self \<and> normalization self' = normalization self
   \<and> n_classes self' = n_classes self"
  by (auto simp: start_new_epoch_def Let_def split: option.splits sum.splits prod.splits if_splits)

lemma start_new_epoch_ok:
  assumes sev: "shuffle_every_epoch self \<noteq> None"
    and len: "length (data4 (images self)) = length (labels self)"
    and aug: "augmentation self \<longrightarrow> labels self = []"
    and chan: "normalization self = Some ''by_chanels'' \<longrightarrow>
                 labels self = [] \<or> 3 \<le> snd (snd (shape_tail (images self)))"
  shows "\<exists>ei el g'. start_new_epoch self g =
             (Inr (), self\<lparr>batch_counter := 0, epoch_images := ei, epoch_labels := el\<rparr>, g')
           \<and> length (data4 ei) = length (labels self) \<and> length el = length (labels self)"
proof -
  from sev obtain every_epoch where e: "shuffle_every_epoch self = Some every_epoch" by auto
  define stage1 where "stage1 =
    (if every_epoch then shuffle_images_labels (images self) (labels self) g
     else (Inr (images self, labels self), g))"
  have "\<exists>imgs lbls g1. stage1 = (Inr (imgs, lbls), g1)
          \<and> length (data4 imgs) = length (labels self) \<and> length lbls = length (labels self)
          \<and> shape_tail imgs = shape_tail (images self)"
  proof (cases every_epoch)
    case True
    with shuffle_images_labels_eq [of "labels self" "images self" g] len show ?thesis
      by (simp add: stage1_def length_perm_decode)
  next
    case False
    with len show ?thesis by (simp add: stage1_def)
  qed
  then obtain imgs lbls g1 where s1: "stage1 = (Inr (imgs, lbls), g1)"
    and l1: "length (data4 imgs) = length (labels self)" "length lbls = length (labels self)"
    and t1: "shape_tail imgs = shape_tail (images self)" by blast
  define stage2 where "stage2 =
    (if augmentation self then augment_all_images imgs 4 g1 else (Inr imgs, g1))"
  have "\<exists>imgs2 g2. stage2 = (Inr imgs2, g2)
          \<and> length (data4 imgs2) = length (labels self)
          \<and> shape_tail imgs2 = shape_tail (images self)"
  proof (cases "augmentation self")
    case True
    with aug l1 have "data4 imgs = []" by simp
    with True l1 t1 augment_all_images_empty [of imgs 4 g1] show ?thesis
      by (simp add: stage2_def)
  next
    case False
    with l1 t1 show ?thesis by (simp add: stage2_def)
  qed
  then obtain imgs2 g2 where s2: "stage2 = (Inr imgs2, g2)"
    and l2: "length (data4 imgs2) = length (labels self)"
    and t2: "shape_tail imgs2 = shape_tail (images self)" by blast
  from chan l2 t2
  have "normalization self = Some ''by_chanels'' \<longrightarrow>
          data4 imgs2 = [] \<or> 3 \<le> snd (snd (shape_tail imgs2))" by auto
  from normalize_epoch_ok [OF this] obtain imgs3
    where s3: "normalize_epoch (normalization self) imgs2 = Inr imgs3"
      and l3: "length (data4 imgs3) = length (data4 imgs2)" by blast
  have "start_new_epoch self g =
          (Inr (), self\<lparr>batch_counter := 0, epoch_images := imgs3, epoch_labels := lbls\<rparr>, g2)"
    using e s1 s2 s3 unfolding stage1_def stage2_def
    by (cases every_epoch; cases "augmentation self") (simp_all add: start_new_epoch_def Let_def)
  with l1 l2 l3 show ?thesis by auto
qed

lemma ds_inv_start_new_epoch:
  assumes "ds_inv self" "0 \<le> c"
  shows "\<exists>self' g'. start_new_epoch (self\<lparr>batch_counter := c\<rparr>) g = (Inr (), self', g')
           \<and> ds_inv self' \<and> batch_counter self' = 0 \<and> labels self' = labels self"
proof -
  let ?s = "self\<lparr>batch_counter := c\<rparr>"
  from assms have "shuffle_every_epoch ?s \<noteq> None"
    "length (data4 (images ?s)) = length (labels ?s)"
    "augmentation ?s \<longrightarrow> labels ?s = []"
    "normalization ?s = Some ''by_chanels'' \<longrightarrow>
       labels ?s = [] \<or> 3 \<le> snd (snd (shape_tail (images ?s)))"
    by (simp_all add: ds_inv_def)
  from start_new_epoch_ok [OF this, of g] obtain ei el g' where
    r: "start_new_epoch ?s g =
         (Inr (), ?s\<lparr>batch_counter := 0, epoch_images := ei, epoch_labels := el\<rparr>, g')"
    and l: "length (data4 ei) = length (labels self)" "length el = length (labels self)"
    by auto
  from assms l have "ds_inv (?s\<lparr>batch_counter := 0, epoch_images := ei, epoch_labels := el\<rparr>)"
    by (simp add: ds_inv_def)
  with r show ?thesis by auto
qed

text \<open>
  The same for the shuffle of \<^verbatim>\<open>start_new_epoch\<close>: with \<^verbatim>\<open>every_epoch\<close>
  and nothing else applied, the epoch images and the epoch labels are the corpus
  indexed by one permutation.
\<close>

lemma start_new_epoch_every_epoch:
  assumes "shuffle_every_epoch self = Some True" "\<not> augmentation self"
    and "normalization self = None"
    and "length (data4 (images self)) = length (labels self)"
  shows "\<exists>p g'. mset p = mset [0..<length (labels self)]
           \<and> start_new_epoch self g =
               (Inr (), self\<lparr>batch_counter := 0,
                             epoch_images := (images self)\<lparr>data4 := map (\<lambda>i. data4 (images self) ! i) p\<rparr>,
                             epoch_labels := map (\<lambda>i. labels self ! i) p\<rparr>, g')"
proof -
  let ?p = "perm_decode (length (labels self)) (g 0)"
  have "start_new_epoch self g =
          (Inr (), self\<lparr>batch_counter := 0,
                        epoch_images := (images self)\<lparr>data4 := map (\<lambda>i. data4 (images self) ! i) ?p\<rparr>,
                        epoch_labels := map (\<lambda>i. labels self ! i) ?p\<rparr>, \<lambda>i. g (Suc i))"
    using assms shuffle_images_labels_eq [of "labels self" "images self" g]
    by (simp add: start_new_epoch_def Let_def normalize_epoch_def)
  then show ?thesis using mset_perm_decode by blast
qed

lemma start_new_epoch_returns:
  assumes ret: "start_new_epoch self g = (Inr u, self', g')"
    and len: "length (data4 (images self)) = length (labels self)"
  shows "ds_inv self'"
proof -
  let ?n = "length (labels self)"
  from ret obtain every_epoch where e: "shuffle_every_epoch self = Some every_epoch"
    by (cases "shuffle_every_epoch self") (auto simp: start_new_epoch_unset)
  define stage1 where "stage1 =
    (if every_epoch then shuffle_images_labels (images self) (labels self) g
     else (Inr (images self, labels self), g))"
  have "\<exists>imgs lbls g1. stage1 = (Inr (imgs, lbls), g1)
          \<and> length (data4 imgs) = ?n \<and> shape_tail imgs = shape_tail (images self)"
  proof (cases every_epoch)
    case True
    with shuffle_images_labels_eq [of "labels self" "images self" g] len show ?thesis
      by (simp add: stage1_def length_perm_decode)
  next
    case False
    with len show ?thesis by (simp add: stage1_def)
  qed
  then obtain imgs lbls g1 where s1: "stage1 = (Inr (imgs, lbls), g1)"
    and l1: "length (data4 imgs) = ?n"
    and t1: "shape_tail imgs = shape_tail (images self)" by blast
  define stage2 where "stage2 =
    (if augmentation self then augment_all_images imgs 4 g1 else (Inr imgs, g1))"
  have run: "start_new_epoch self g =
    (case stage2 of
       (Inl e, g2) \<Rightarrow> (Inl e, self\<lparr>batch_counter := 0\<rparr>, g2)
     | (Inr imgs2, g2) \<Rightarrow>
         (case normalize_epoch (normalization self) imgs2 of
            Inl e \<Rightarrow> (Inl e, self\<lparr>batch_counter := 0\<rparr>, g2)
          | Inr imgs3 \<Rightarrow>
              (Inr (), self\<lparr>batch_counter := 0, epoch_images := imgs3, epoch_labels := lbls\<rparr>, g2)))"
    using e s1 unfolding stage1_def stage2_def
    by (cases every_epoch; cases "augmentation self")
       (simp_all add: start_new_epoch_def Let_def split: prod.splits sum.splits)
  obtain r2 g2 where s2: "stage2 = (r2, g2)" by (cases stage2)
  from ret run s2 obtain imgs2 where r2: "r2 = Inr imgs2" by (cases r2) auto
  have aug: "augmentation self \<longrightarrow> labels self = []"
  proof
    assume a: "augmentation self"
    show "labels self = []"
    proof (rule ccontr)
      assume "labels self \<noteq> []"
      with l1 have "data4 imgs \<noteq> []" by auto
      from augment_all_images_nonempty [OF this, of 4 g1] a s2 r2 show False
        by (simp add: stage2_def)
    qed
  qed
  have i2: "length (data4 imgs2) = ?n \<and> shape_tail imgs2 = shape_tail (images self)"
  proof (cases "augmentation self")
    case True
    with aug l1 have "data4 imgs = []" by simp
    with True s2 r2 l1 t1 augment_all_images_empty [of imgs 4 g1] show ?thesis
      by (auto simp: stage2_def)
  next
    case False
    with s2 r2 l1 t1 show ?thesis by (simp add: stage2_def)
  qed
  from ret run s2 r2 obtain imgs3 where s3: "normalize_epoch (normalization self) imgs2 = Inr imgs3"
    by (cases "normalize_epoch (normalization self) imgs2") auto
  from normalize_epoch_returns [OF s3] i2
  have chan: "normalization self = Some ''by_chanels'' \<longrightarrow>
                labels self = [] \<or> 3 \<le> snd (snd (shape_tail (images self)))" by auto
  from e have "shuffle_every_epoch self \<noteq> None" by simp
  from start_new_epoch_ok [OF this len aug chan, of g] ret len aug chan e show ?thesis
    by (auto simp: ds_inv_def)
qed

lemma CifarDataSet_init_inv:
  assumes len: "length lbls = length (data4 imgs)"
    and ret: "CifarDataSet_init imgs lbls n shuffle norm_mode aug g = (Inr self, g')"
  shows "ds_inv self"
proof -
  define stage where "stage =
    (case shuffle of
       None \<Rightarrow> (Inr (Some False, imgs, lbls), g)
     | Some s \<Rightarrow>
         if s = ''once_prior_train'' then
           (case shuffle_images_labels imgs lbls g of
              (Inl e, g') \<Rightarrow> (Inl e, g')
            | (Inr (imgs', lbls'), g') \<Rightarrow> (Inr (Some False, imgs', lbls'), g'))
         else if s = ''every_epoch'' then (Inr (Some True, imgs, lbls), g)
         else (Inr (DataSet_shuffle_every_epoch, imgs, lbls), g))"
  have "\<exists>every_epoch imgs1 lbls1 g1. stage = (Inr (every_epoch, imgs1, lbls1), g1)
          \<and> length (data4 imgs1) = length lbls1"
    using len shuffle_images_labels_eq [OF len, of g]
    by (auto simp: stage_def length_perm_decode split: option.splits)
  then obtain every_epoch imgs1 lbls1 g1 where s: "stage = (Inr (every_epoch, imgs1, lbls1), g1)"
    and l: "length (data4 imgs1) = length lbls1" by blast
  let ?self = "\<lparr>shuffle_every_epoch = every_epoch, images = imgs1, labels = lbls1,
                 n_classes = n, augmentation = aug, normalization = norm_mode,
                 batch_counter = 0, epoch_images = imgs1, epoch_labels = lbls1\<rparr>"
  from ret s have "\<exists>u. start_new_epoch ?self g1 = (Inr u, self, g')"
    unfolding CifarDataSet_init_def stage_def [symmetric]
    by (auto split: prod.splits sum.splits)
  then obtain u where "start_new_epoch ?self g1 = (Inr u, self, g')" ..
  from start_new_epoch_returns [OF this] l show ?thesis by simp
qed

text \<open>
  An epoch that \<^verbatim>\<open>start_new_epoch\<close> has materialized is aligned with the corpus,
  and so is the dataset that the constructor returns.
\<close>

lemma start_new_epoch_aligned:
  assumes ret: "start_new_epoch self g = (Inr u, self', g')"
    and len: "length (data4 (images self)) = length (labels self)"
  shows "epoch_aligned self'"
proof -
  let ?n = "length (labels self)"
  let ?I = "data4 (images self)" and ?L = "labels self"
  from ret obtain every_epoch where e: "shuffle_every_epoch self = Some every_epoch"
    by (cases "shuffle_every_epoch self") (auto simp: start_new_epoch_unset)
  define stage1 where "stage1 =
    (if every_epoch then shuffle_images_labels (images self) (labels self) g
     else (Inr (images self, labels self), g))"
  have "\<exists>imgs lbls g1 p. stage1 = (Inr (imgs, lbls), g1) \<and> mset p = mset [0..<?n]
          \<and> data4 imgs = map (\<lambda>i. ?I ! i) p \<and> lbls = map (\<lambda>i. ?L ! i) p
          \<and> shape_tail imgs = shape_tail (images self)"
  proof (cases every_epoch)
    case True
    with shuffle_images_labels_eq [of "labels self" "images self" g] len
    have "stage1 = (Inr ((images self)\<lparr>data4 := map (\<lambda>i. ?I ! i) (perm_decode ?n (g 0))\<rparr>,
                         map (\<lambda>i. ?L ! i) (perm_decode ?n (g 0))), \<lambda>i. g (Suc i))"
      by (simp add: stage1_def)
    then show ?thesis using mset_perm_decode [of ?n "g 0"] by auto
  next
    case False
    have "map (\<lambda>i. ?I ! i) [0..<?n] = ?I" "map (\<lambda>i. ?L ! i) [0..<?n] = ?L"
      using len map_nth [of ?I] map_nth [of ?L] by simp_all
    with False show ?thesis
      by (intro exI [of _ "images self"] exI [of _ "labels self"] exI [of _ g]
                exI [of _ "[0..<?n]"]) (simp add: stage1_def)
  qed
  then obtain imgs lbls g1 p where s1: "stage1 = (Inr (imgs, lbls), g1)"
    and p: "mset p = mset [0..<?n]"
    and d1: "data4 imgs = map (\<lambda>i. ?I ! i) p" and l1: "lbls = map (\<lambda>i. ?L ! i) p"
    and t1: "shape_tail imgs = shape_tail (images self)" by blast
  define stage2 where "stage2 =
    (if augmentation self then augment_all_images imgs 4 g1 else (Inr imgs, g1))"
  have run: "start_new_epoch self g =
    (case stage2 of
       (Inl e, g2) \<Rightarrow> (Inl e, self\<lparr>batch_counter := 0\<rparr>, g2)
     | (Inr imgs2, g2) \<Rightarrow>
         (case normalize_epoch (normalization self) imgs2 of
            Inl e \<Rightarrow> (Inl e, self\<lparr>batch_counter := 0\<rparr>, g2)
          | Inr imgs3 \<Rightarrow>
              (Inr (), self\<lparr>batch_counter := 0, epoch_images := imgs3, epoch_labels := lbls\<rparr>, g2)))"
    using e s1 unfolding stage1_def stage2_def
    by (cases every_epoch; cases "augmentation self")
       (simp_all add: start_new_epoch_def Let_def split: prod.splits sum.splits)
  obtain r2 g2 where s2: "stage2 = (r2, g2)" by (cases stage2)
  from ret run s2 obtain imgs2 where r2: "r2 = Inr imgs2" by (cases r2) auto
  have i2: "data4 imgs2 = data4 imgs \<and> shape_tail imgs2 = shape_tail (images self)"
  proof (cases "augmentation self")
    case True
    have "data4 imgs = []"
    proof (rule ccontr)
      assume "data4 imgs \<noteq> []"
      from augment_all_images_nonempty [OF this, of 4 g1] True s2 r2 show False
        by (simp add: stage2_def)
    qed
    with True s2 r2 t1 augment_all_images_empty [of imgs 4 g1] show ?thesis
      by (auto simp: stage2_def)
  next
    case False
    with s2 r2 t1 show ?thesis by (simp add: stage2_def)
  qed
  from ret run s2 r2 obtain imgs3 where s3: "normalize_epoch (normalization self) imgs2 = Inr imgs3"
    and self': "self' = self\<lparr>batch_counter := 0, epoch_images := imgs3, epoch_labels := lbls\<rparr>"
    by (cases "normalize_epoch (normalization self) imgs2") auto
  let ?N = "normalized_item (normalization self) (shape_tail (images self))"
  from normalize_epoch_map [OF s3] i2 d1
  have d3: "data4 imgs3 = map ?N (map (\<lambda>i. ?I ! i) p)" by simp
  have sp: "set p = {0..<?n}" using p by (metis mset_eq_setD set_upt)
  have "map ?N (map (\<lambda>i. ?I ! i) p) = map (\<lambda>i. map ?N ?I ! i) p"
    using sp len by auto
  with d3 have d3': "data4 imgs3 = map (\<lambda>i. map ?N ?I ! i) p" by simp
  have "mset (zip (map (\<lambda>i. map ?N ?I ! i) p) (map (\<lambda>i. ?L ! i) p)) = mset (zip (map ?N ?I) ?L)"
    using p len by (intro mset_zip_map_nth) simp_all
  with d3' l1 self' show ?thesis
    by (simp add: epoch_aligned_def corpus_pairs_def)
qed

lemma corpus_pairs_frame:
  "images self' = images self \<Longrightarrow> labels self' = labels self \<Longrightarrow>
   normalization self' = normalization self \<Longrightarrow> corpus_pairs self' = corpus_pairs self"
  by (simp add: corpus_pairs_def)

lemma CifarDataSet_init_aligned:
  assumes len: "length lbls = length (data4 imgs)"
    and ret: "CifarDataSet_init imgs lbls n shuffle norm_mode aug g = (Inr self, g')"
  shows "epoch_aligned self"
proof -
  define stage where "stage =
    (case shuffle of
       None \<Rightarrow> (Inr (Some False, imgs, lbls), g)
     | Some s \<Rightarrow>
         if s = ''once_prior_train'' then
           (case shuffle_images_labels imgs lbls g of
              (Inl e, g') \<Rightarrow> (Inl e, g')
            | (Inr (imgs', lbls'), g') \<Rightarrow> (Inr (Some False, imgs', lbls'), g'))
         else if s = ''every_epoch'' then (Inr (Some True, imgs, lbls), g)
         else (Inr (DataSet_shuffle_every_epoch, imgs, lbls), g))"
  have "\<exists>every_epoch imgs1 lbls1 g1. stage = (Inr (every_epoch, imgs1, lbls1), g1)
          \<and> length (data4 imgs1) = length lbls1"
    using len shuffle_images_labels_eq [OF len, of g]
    by (auto simp: stage_def length_perm_decode split: option.splits)
  then obtain every_epoch imgs1 lbls1 g1 where s: "stage = (Inr (every_epoch, imgs1, lbls1), g1)"
    and l: "length (data4 imgs1) = length lbls1" by blast
  let ?self = "\<lparr>shuffle_every_epoch = every_epoch, images = imgs1, labels = lbls1,
                 n_classes = n, augmentation = aug, normalization = norm_mode,
                 batch_counter = 0, epoch_images = imgs1, epoch_labels = lbls1\<rparr>"
  from ret s have "\<exists>u. start_new_epoch ?self g1 = (Inr u, self, g')"
    unfolding CifarDataSet_init_def stage_def [symmetric]
    by (auto split: prod.splits sum.splits)
  then obtain u where "start_new_epoch ?self g1 = (Inr u, self, g')" ..
  from start_new_epoch_aligned [OF this] l show ?thesis by simp
qed

text \<open>
  Claim C3, corrected. The claim: a constructor call with an unrecognized shuffle mode
  or an unrecognized normalization mode fails before any epoch is materialized.
  The code: a shuffle string that is neither \<^verbatim>\<open>once_prior_train\<close> nor
  \<^verbatim>\<open>every_epoch\<close> leaves \<^verbatim>\<open>shuffle_every_epoch\<close> unset, and the constructor
  raises AttributeError at the first statement of \<^verbatim>\<open>start_new_epoch\<close> that reads
  it, with no draw taken and no epoch buffer built. A normalization string that is
  none of the three modes is not rejected: without shuffling and augmentation the
  constructor returns a dataset whose epoch images are the images as given.
\<close>

theorem unrecognized_modes:
  "(s \<noteq> ''once_prior_train'' \<and> s \<noteq> ''every_epoch'' \<longrightarrow>
      CifarDataSet_init imgs lbls n (Some s) norm_mode aug g = (Inl AttributeError, g))
   \<and> (m \<noteq> ''divide_255'' \<and> m \<noteq> ''divide_256'' \<and> m \<noteq> ''by_chanels'' \<longrightarrow>
      CifarDataSet_init imgs lbls n None (Some m) False g =
        (Inr \<lparr>shuffle_every_epoch = Some False, images = imgs, labels = lbls, n_classes = n,
              augmentation = False, normalization = Some m, batch_counter = 0,
              epoch_images = imgs, epoch_labels = lbls\<rparr>, g))"
  by (simp add: CifarDataSet_init_def DataSet_shuffle_every_epoch_def start_new_epoch_unset
        start_new_epoch_plain normalize_epoch_def)

theorem unrecognized_modes_witness:
  "''sometimes'' \<noteq> ''once_prior_train'' \<and> ''sometimes'' \<noteq> ''every_epoch''
   \<and> CifarDataSet_init \<lparr>shape_tail = (1, 1, 3), data4 = [[[[1, 2, 3]]]]\<rparr> [7 :: int] 10
        (Some ''sometimes'') None False (const_rng 0) = (Inl AttributeError, const_rng 0)
   \<and> ''divide_by_255'' \<noteq> ''divide_255'' \<and> ''divide_by_255'' \<noteq> ''divide_256''
   \<and> ''divide_by_255'' \<noteq> ''by_chanels''
   \<and> CifarDataSet_init \<lparr>shape_tail = (1, 1, 3), data4 = [[[[1, 2, 3]]]]\<rparr> [7 :: int] 10
        None (Some ''divide_by_255'') False (const_rng 0) =
        (Inr \<lparr>shuffle_every_epoch = Some False,
              images = \<lparr>shape_tail = (1, 1, 3), data4 = [[[[1, 2, 3]]]]\<rparr>, labels = [7], n_classes = 10,
              augmentation = False, normalization = Some ''divide_by_255'', batch_counter = 0,
              epoch_images = \<lparr>shape_tail = (1, 1, 3), data4 = [[[[1, 2, 3]]]]\<rparr>,
              epoch_labels = [7]\<rparr>, const_rng 0)"
  using unrecognized_modes [of "''sometimes''" "\<lparr>shape_tail = (1, 1, 3), data4 = [[[[1, 2, 3]]]]\<rparr>"
      "[7 :: int]" 10 None False "const_rng 0" "''divide_by_255''"]
  by simp

theorem unrecognized_normalization_accepted:
  "fst (CifarDataSet_init \<lparr>shape_tail = (1, 1, 3), data4 = [[[[1, 2, 3]]]]\<rparr> [7 :: int] 10
          None (Some ''divide_by_255'') False (const_rng 0)) =
     Inr \<lparr>shuffle_every_epoch = Some False,
          images = \<lparr>shape_tail = (1, 1, 3), data4 = [[[[1, 2, 3]]]]\<rparr>, labels = [7], n_classes = 10,
          augmentation = False, normalization = Some ''divide_by_255'', batch_counter = 0,
          epoch_images = \<lparr>shape_tail = (1, 1, 3), data4 = [[[[1, 2, 3]]]]\<rparr>,
          epoch_labels = [7]\<rparr>"
  by (simp add: CifarDataSet_init_def start_new_epoch_plain normalize_epoch_def)

subsection \<open>Batches\<close>

lemmas next_batch_induct = next_batch.raw_induct [rotated 1, consumes 1, case_names step]

lemma next_batch_frame:
  "next_batch b self g = Some y \<Longrightarrow>
   images (fst (snd y)) = images self \<and> labels (fst (snd y)) = labels self
   \<and> shuffle_every_epoch (fst (snd y)) = shuffle_every_epoch self
   \<and> augmentation (fst (snd y)) = augmentation self
   \<and> normalization (fst (snd y)) = normalization self
   \<and> n_classes (fst (snd y)) = n_classes self"
proof (induction b self g y rule: next_batch_induct)
  case (step next_batch batch_size self0 g y)
  let ?self = "self0\<lparr>batch_counter := batch_counter self0 + 1\<rparr>"
  show ?case
  proof (cases "int (length (py_slice (Some (batch_counter self0 * batch_size))
                      (Some ((batch_counter self0 + 1) * batch_size)) (data4 (epoch_images self0))))
                  \<noteq> batch_size")
    case False
    with step(2) show ?thesis by (auto simp: Let_def)
  next
    case True
    obtain r self' g' where s: "start_new_epoch ?self g = (r, self', g')"
      by (cases "start_new_epoch ?self g") auto
    note f = start_new_epoch_frame [OF s]
    show ?thesis
    proof (cases r)
      case (Inl e)
      with step(2) True s f show ?thesis by (auto simp: Let_def)
    next
      case (Inr u)
      with step(2) True s have "next_batch batch_size self' g' = Some y" by (simp add: Let_def)
      from step(1) [OF this] f show ?thesis by simp
    qed
  qed
qed

lemma py_slice_empty: "py_slice (Some 0) (Some 0) xs = []"
  by (simp add: py_slice_def slice_bound_def)

text \<open>
  Claim C10. For every dataset, \<^verbatim>\<open>next_batch(0)\<close> returns at once: an image
  slice and a label slice with no examples. The epoch buffers and the generator are
  as before the call, so no epoch was started; only the batch counter has advanced.
\<close>

theorem next_batch_zero:
  "next_batch 0 self g =
     Some (Inr ((epoch_images self)\<lparr>data4 := []\<rparr>, []), self\<lparr>batch_counter := batch_counter self + 1\<rparr>, g)"
  by (subst next_batch.simps) (simp add: py_slice_empty Let_def)

lemma next_batch_in_epoch:
  assumes c: "0 \<le> batch_counter self" and b: "0 \<le> b"
    and fit: "(batch_counter self + 1) * b \<le> int (length (data4 (epoch_images self)))"
    and el: "length (epoch_labels self) = length (data4 (epoch_images self))"
  shows "next_batch b self g =
           Some (Inr ((epoch_images self)\<lparr>data4 :=
                         take (nat b) (drop (nat (batch_counter self * b)) (data4 (epoch_images self)))\<rparr>,
                      take (nat b) (drop (nat (batch_counter self * b)) (epoch_labels self))),
                 self\<lparr>batch_counter := batch_counter self + 1\<rparr>, g)"
proof -
  let ?s = "batch_counter self * b" and ?e = "(batch_counter self + 1) * b"
  have s: "0 \<le> ?s" using c b by simp
  have e: "?e = ?s + b" by (simp add: algebra_simps)
  have se: "?s \<le> ?e" using b e by simp
  have n: "nat ?e \<le> length (data4 (epoch_images self))" using fit by linarith
  have d: "?e - ?s = b" using e by simp
  have i: "py_slice (Some ?s) (Some ?e) (data4 (epoch_images self))
             = take (nat b) (drop (nat ?s) (data4 (epoch_images self)))"
    using py_slice_take_drop [OF s se n] d by simp
  have l: "py_slice (Some ?s) (Some ?e) (epoch_labels self)
             = take (nat b) (drop (nat ?s) (epoch_labels self))"
    using py_slice_take_drop [OF s se, of "epoch_labels self"] n el d by simp
  have "nat ?s + nat b \<le> length (data4 (epoch_images self))"
    using n e s b by linarith
  then have len: "int (length (py_slice (Some ?s) (Some ?e) (data4 (epoch_images self)))) = b"
    using b by (simp add: i)
  have "next_batch b self g =
          Some (Inr ((epoch_images self)\<lparr>data4 :=
                        py_slice (Some ?s) (Some ?e) (data4 (epoch_images self))\<rparr>,
                     py_slice (Some ?s) (Some ?e) (epoch_labels self)),
                self\<lparr>batch_counter := batch_counter self + 1\<rparr>, g)"
    by (subst next_batch.simps) (simp add: Let_def len)
  then show ?thesis by (simp only: i l)
qed

lemma next_batch_rollover:
  assumes c: "0 \<le> batch_counter self" and b: "0 \<le> b"
    and over: "int (length (data4 (epoch_images self))) < (batch_counter self + 1) * b"
    and ok: "start_new_epoch (self\<lparr>batch_counter := batch_counter self + 1\<rparr>) g = (Inr u, self', g')"
  shows "next_batch b self g = next_batch b self' g'"
proof -
  let ?s = "batch_counter self * b" and ?e = "(batch_counter self + 1) * b"
  let ?n = "length (data4 (epoch_images self))"
  have s: "0 \<le> ?s" using c b by simp
  have e: "?e = ?s + b" by (simp add: algebra_simps)
  have se: "?s \<le> ?e" using b e by simp
  have "length (py_slice (Some ?s) (Some ?e) (data4 (epoch_images self)))
          = min (nat ?e) ?n - min (nat ?s) ?n"
    by (rule length_py_slice [OF s se])
  moreover have "int (min (nat ?e) ?n - min (nat ?s) ?n) \<noteq> b"
    using over e s b by (auto simp: min_def)
  ultimately have ne: "int (length (py_slice (Some ?s) (Some ?e) (data4 (epoch_images self)))) \<noteq> b"
    by simp
  show ?thesis
    by (subst next_batch.simps) (use ne ok in \<open>simp add: Let_def\<close>)
qed

lemma next_batch_preserves_inv:
  "next_batch b self g = Some y \<Longrightarrow> ds_inv self \<Longrightarrow>
   ds_inv (fst (snd y)) \<and> (\<exists>batch. fst y = Inr batch)"
proof (induction b self g y rule: next_batch_induct)
  case (step next_batch batch_size self0 g y)
  let ?c = "batch_counter self0"
  let ?self = "self0\<lparr>batch_counter := ?c + 1\<rparr>"
  from step(3) have c1: "0 \<le> ?c + 1" by (simp add: ds_inv_def)
  show ?case
  proof (cases "int (length (py_slice (Some (?c * batch_size)) (Some ((?c + 1) * batch_size))
                      (data4 (epoch_images self0)))) \<noteq> batch_size")
    case False
    with step(2) have "y = (Inr ((epoch_images self0)\<lparr>data4 :=
          py_slice (Some (?c * batch_size)) (Some ((?c + 1) * batch_size)) (data4 (epoch_images self0))\<rparr>,
          py_slice (Some (?c * batch_size)) (Some ((?c + 1) * batch_size)) (epoch_labels self0)),
          ?self, g)"
      by (auto simp: Let_def)
    with step(3) c1 show ?thesis by (simp add: ds_inv_def)
  next
    case True
    from ds_inv_start_new_epoch [OF step(3) c1, of g] obtain self1 g1 where
      ok: "start_new_epoch ?self g = (Inr (), self1, g1)" and inv1: "ds_inv self1" by blast
    from step(2) True ok have "next_batch batch_size self1 g1 = Some y"
      by (simp add: Let_def)
    from step(1) [OF this inv1] show ?thesis .
  qed
qed

lemma next_batch_preserves_aligned:
  "next_batch b self g = Some y \<Longrightarrow> ds_inv self \<Longrightarrow> epoch_aligned self \<Longrightarrow>
   epoch_aligned (fst (snd y))"
proof (induction b self g y rule: next_batch_induct)
  case (step next_batch batch_size self0 g y)
  let ?c = "batch_counter self0"
  let ?self = "self0\<lparr>batch_counter := ?c + 1\<rparr>"
  from step(3) have c1: "0 \<le> ?c + 1" by (simp add: ds_inv_def)
  show ?case
  proof (cases "int (length (py_slice (Some (?c * batch_size)) (Some ((?c + 1) * batch_size))
                      (data4 (epoch_images self0)))) \<noteq> batch_size")
    case False
    with step(2) have "fst (snd y) = ?self" by (auto simp: Let_def)
    with step(4) show ?thesis by (simp add: epoch_aligned_def corpus_pairs_def)
  next
    case True
    from ds_inv_start_new_epoch [OF step(3) c1, of g] obtain self1 g1 where
      ok: "start_new_epoch ?self g = (Inr (), self1, g1)" and inv1: "ds_inv self1" by blast
    from step(3) have "length (data4 (images ?self)) = length (labels ?self)"
      by (simp add: ds_inv_def)
    from start_new_epoch_aligned [OF ok this] have al1: "epoch_aligned self1" .
    from step(2) True ok have "next_batch batch_size self1 g1 = Some y"
      by (simp add: Let_def)
    from step(1) [OF this inv1 al1] show ?thesis .
  qed
qed

lemma mset_window_subset:
  assumes "length xs = length ys"
  shows "mset (zip (take b (drop s xs)) (take b (drop s ys))) \<subseteq># mset (zip xs ys)"
proof -
  let ?zs = "zip xs ys"
  have "zip (take b (drop s xs)) (take b (drop s ys)) = take b (drop s ?zs)"
    by (simp add: take_zip drop_zip)
  moreover have "mset (take b (drop s ?zs)) \<subseteq># mset (drop s ?zs)"
    by (metis append_take_drop_id mset_append mset_subset_eq_add_left)
  moreover have "mset (drop s ?zs) \<subseteq># mset ?zs"
    by (metis append_take_drop_id mset_append mset_subset_eq_add_right)
  ultimately show ?thesis by (metis subset_mset.order_trans)
qed

lemma served_pairs_in_corpus:
  assumes al: "epoch_aligned self" and len: "length (data4 (epoch_images self)) = length (epoch_labels self)"
    and ims: "ims = take b (drop s (data4 (epoch_images self)))"
    and lbs: "lbs = take b (drop s (epoch_labels self))"
  shows "mset (zip ims lbs) \<subseteq># mset (corpus_pairs self)"
    and "\<forall>i < length (zip ims lbs). \<exists>j < length (labels self).
           j < length (data4 (images self))
           \<and> ims ! i = normalized_item (normalization self) (shape_tail (images self))
                          (data4 (images self) ! j)
           \<and> lbs ! i = labels self ! j"
proof -
  show sub: "mset (zip ims lbs) \<subseteq># mset (corpus_pairs self)"
    using mset_window_subset [OF len, of b s] al ims lbs by (simp add: epoch_aligned_def)
  show "\<forall>i < length (zip ims lbs). \<exists>j < length (labels self).
           j < length (data4 (images self))
           \<and> ims ! i = normalized_item (normalization self) (shape_tail (images self))
                          (data4 (images self) ! j)
           \<and> lbs ! i = labels self ! j"
  proof (intro allI impI)
    fix i assume i: "i < length (zip ims lbs)"
    then have "zip ims lbs ! i \<in> set (zip ims lbs)" by (rule nth_mem)
    moreover from i have "zip ims lbs ! i = (ims ! i, lbs ! i)" by simp
    ultimately have "(ims ! i, lbs ! i) \<in># mset (zip ims lbs)" by simp
    with sub have "(ims ! i, lbs ! i) \<in># mset (corpus_pairs self)"
      by (meson mset_subset_eqD)
    then have "(ims ! i, lbs ! i) \<in> set (corpus_pairs self)" by simp
    then obtain j where "j < length (data4 (images self))" "j < length (labels self)"
      "ims ! i = map (normalized_item (normalization self) (shape_tail (images self)))
                     (data4 (images self)) ! j"
      "lbs ! i = labels self ! j"
      unfolding corpus_pairs_def in_set_zip by auto
    then show "\<exists>j < length (labels self).
           j < length (data4 (images self))
           \<and> ims ! i = normalized_item (normalization self) (shape_tail (images self))
                          (data4 (images self) ! j)
           \<and> lbs ! i = labels self ! j" by auto
  qed
qed

text \<open>
  Claim C8. Whatever \<^verbatim>\<open>start_new_epoch\<close> leaves behind, returning or raising, and
  whatever a call of \<^verbatim>\<open>next_batch\<close> that returns or raises leaves behind, the
  object has the \<^verbatim>\<open>images\<close>, the \<^verbatim>\<open>labels\<close> and the
  \<^verbatim>\<open>num_examples\<close> it had before the call.
\<close>

theorem base_corpus_unchanged:
  "(start_new_epoch self g = (r, self', g') \<longrightarrow>
      images self' = images self \<and> labels self' = labels self
      \<and> num_examples self' = num_examples self)
   \<and> (next_batch b self g = Some (r', self'', g'') \<longrightarrow>
      images self'' = images self \<and> labels self'' = labels self
      \<and> num_examples self'' = num_examples self)"
  using start_new_epoch_frame [of self g r self' g'] next_batch_frame [of b self g "(r', self'', g'')"]
  by (simp add: num_examples_def)

theorem base_corpus_unchanged_witness:
  "start_new_epoch (example_dataset 2) (const_rng 0) = (Inr (), example_dataset 0, const_rng 0)
   \<and> next_batch 1 (example_dataset 2) (const_rng 0)
       = Some (Inr (two_images\<lparr>data4 := [[[[1, 2, 3]]]]\<rparr>, [7]), example_dataset 1, const_rng 0)
   \<and> images (example_dataset 0) = images (example_dataset 2)
   \<and> labels (example_dataset 0) = labels (example_dataset 2)
   \<and> num_examples (example_dataset 0) = num_examples (example_dataset 2)
   \<and> images (example_dataset 1) = images (example_dataset 2)
   \<and> labels (example_dataset 1) = labels (example_dataset 2)
   \<and> num_examples (example_dataset 1) = num_examples (example_dataset 2)"
proof -
  have a: "start_new_epoch (example_dataset 2) (const_rng 0) = (Inr (), example_dataset 0, const_rng 0)"
    by (simp add: start_new_epoch_plain normalize_epoch_def)
  have r: "start_new_epoch (example_dataset 3) (const_rng 0) = (Inr (), example_dataset 0, const_rng 0)"
    by (simp add: start_new_epoch_plain normalize_epoch_def)
  have "next_batch 1 (example_dataset 2) (const_rng 0) = next_batch 1 (example_dataset 0) (const_rng 0)"
    using r by (intro next_batch_rollover) simp_all
  also have "\<dots> = Some (Inr (two_images\<lparr>data4 := [[[[1, 2, 3]]]]\<rparr>, [7]), example_dataset 1, const_rng 0)"
    by (simp add: next_batch_in_epoch)
  finally have b: "next_batch 1 (example_dataset 2) (const_rng 0)
       = Some (Inr (two_images\<lparr>data4 := [[[[1, 2, 3]]]]\<rparr>, [7]), example_dataset 1, const_rng 0)" .
  from a b base_corpus_unchanged [of "example_dataset 2" "const_rng 0" "Inr ()" "example_dataset 0"
      "const_rng 0" 1 "Inr (two_images\<lparr>data4 := [[[[1, 2, 3]]]]\<rparr>, [7])"
      "example_dataset 1" "const_rng 0"]
  show ?thesis by simp
qed

text \<open>
  Claim C1. For every dataset that satisfies \<open>ds_inv\<close> and is \<open>epoch_aligned\<close>
  (as every dataset is that the constructor has returned for images and labels of
  equal length, after any number of batches), and for every \<open>batch_size\<close> with
  \<open>1 \<le> batch_size \<le> num_examples\<close>, \<^verbatim>\<open>next_batch\<close> returns, and returns exactly
  \<open>batch_size\<close> images and \<open>batch_size\<close> labels. The pairs are aligned: at every
  position \<open>i\<close> of the batch stand the normalized image and the label of one and the
  same example \<open>j\<close> of the corpus, and no pair of the corpus is served more often
  than the corpus holds it. Images and labels are the same window of the epoch
  buffers the call leaves behind. When the window at the cursor fits into the
  epoch, only the cursor advances. Otherwise the short remainder is dropped:
  \<^verbatim>\<open>start_new_epoch\<close> runs once and returns, and the batch is the first window of
  the new epoch, the cursor standing at one.
\<close>

theorem next_batch_returns_full_batch:
  assumes inv: "ds_inv self" and al: "epoch_aligned self"
    and b1: "1 \<le> b" and bn: "b \<le> num_examples self"
  shows "\<exists>imgs lbls self' g'.
           next_batch b self g = Some (Inr (imgs, lbls), self', g')
           \<and> int (length (data4 imgs)) = b \<and> int (length lbls) = b
           \<and> (\<forall>i < nat b. \<exists>j < length (labels self).
                 data4 imgs ! i = normalized_item (normalization self) (shape_tail (images self))
                                    (data4 (images self) ! j)
                 \<and> lbls ! i = labels self ! j)
           \<and> mset (zip (data4 imgs) lbls) \<subseteq># mset (corpus_pairs self)
           \<and> imgs = (epoch_images self')\<lparr>data4 :=
                        take (nat b) (drop (nat ((batch_counter self' - 1) * b))
                                           (data4 (epoch_images self')))\<rparr>
           \<and> lbls = take (nat b) (drop (nat ((batch_counter self' - 1) * b)) (epoch_labels self'))
           \<and> ds_inv self' \<and> epoch_aligned self'
           \<and> (if (batch_counter self + 1) * b \<le> num_examples self
               then self' = self\<lparr>batch_counter := batch_counter self + 1\<rparr> \<and> g' = g
               else \<exists>self1. start_new_epoch (self\<lparr>batch_counter := batch_counter self + 1\<rparr>) g
                               = (Inr (), self1, g')
                            \<and> self' = self1\<lparr>batch_counter := 1\<rparr>)"
proof -
  let ?c = "batch_counter self" and ?n = "length (labels self)"
  let ?N = "normalized_item (normalization self) (shape_tail (images self))"
  from inv have c: "0 \<le> ?c"
    and ei: "length (data4 (epoch_images self)) = ?n"
    and el: "length (epoch_labels self) = ?n"
    and il: "length (data4 (images self)) = ?n" by (simp_all add: ds_inv_def)
  from b1 have b0: "0 \<le> b" by simp
  from bn have bn': "b \<le> int ?n" by (simp add: num_examples_def)
  have s: "0 \<le> ?c * b" using c b0 by simp
  have e: "(?c + 1) * b = ?c * b + b" by (simp add: algebra_simps)
  show ?thesis
  proof (cases "(?c + 1) * b \<le> int ?n")
    case True
    let ?self' = "self\<lparr>batch_counter := ?c + 1\<rparr>"
    let ?ims = "take (nat b) (drop (nat (?c * b)) (data4 (epoch_images self)))"
    let ?lbs = "take (nat b) (drop (nat (?c * b)) (epoch_labels self))"
    have run: "next_batch b self g =
        Some (Inr ((epoch_images self)\<lparr>data4 := ?ims\<rparr>, ?lbs), ?self', g)"
      using True ei el by (intro next_batch_in_epoch [OF c b0]) simp_all
    have fit: "nat (?c * b) + nat b \<le> ?n" using True e s b0 by linarith
    have inv': "ds_inv ?self'" using inv c by (simp add: ds_inv_def)
    have al': "epoch_aligned ?self'" using al by (simp add: epoch_aligned_def corpus_pairs_def)
    have eq: "length (data4 (epoch_images self)) = length (epoch_labels self)" using ei el by simp
    have lz: "length (zip ?ims ?lbs) = nat b" using fit ei el by simp
    have sub: "mset (zip ?ims ?lbs) \<subseteq># mset (corpus_pairs self)"
      by (rule served_pairs_in_corpus(1) [OF al eq refl refl])
    have pw: "\<forall>i < nat b. \<exists>j < ?n. ?ims ! i = ?N (data4 (images self) ! j) \<and> ?lbs ! i = labels self ! j"
      using served_pairs_in_corpus(2) [OF al eq refl refl, of "nat b" "nat (?c * b)"] lz
      by (simp only:) blast
    have main: "next_batch b self g = Some (Inr ((epoch_images self)\<lparr>data4 := ?ims\<rparr>, ?lbs), ?self', g)
        \<and> int (length ?ims) = b \<and> int (length ?lbs) = b"
      using run fit b0 ei el by simp
    show ?thesis
      apply (intro exI [of _ "(epoch_images self)\<lparr>data4 := ?ims\<rparr>"] exI [of _ ?lbs]
                   exI [of _ ?self'] exI [of _ g])
      using main pw sub inv' al' True by (simp add: num_examples_def)
  next
    case False
    then have over: "int (length (data4 (epoch_images self))) < (?c + 1) * b"
      using ei by simp
    have c1: "0 \<le> ?c + 1" using c by simp
    from ds_inv_start_new_epoch [OF inv c1, of g] obtain self1 g1 where
      ok: "start_new_epoch (self\<lparr>batch_counter := ?c + 1\<rparr>) g = (Inr (), self1, g1)"
      and inv1: "ds_inv self1" and z: "batch_counter self1 = 0"
      and lab: "labels self1 = labels self" by blast
    from inv1 lab have ei1: "length (data4 (epoch_images self1)) = ?n"
      and el1: "length (epoch_labels self1) = ?n" by (simp_all add: ds_inv_def)
    from start_new_epoch_frame [OF ok]
    have fr: "images self1 = images self" "normalization self1 = normalization self" by simp_all
    have al1: "epoch_aligned self1"
      using start_new_epoch_aligned [OF ok] il by simp
    have cp: "corpus_pairs self1 = corpus_pairs self"
      using fr lab by (simp add: corpus_pairs_def)
    let ?self' = "self1\<lparr>batch_counter := 1\<rparr>"
    let ?ims = "take (nat b) (data4 (epoch_images self1))"
    let ?lbs = "take (nat b) (epoch_labels self1)"
    have "next_batch b self g = next_batch b self1 g1"
      by (rule next_batch_rollover [OF c b0 over ok])
    also have "\<dots> =
        Some (Inr ((epoch_images self1)\<lparr>data4 :=
                      take (nat b) (drop (nat (batch_counter self1 * b)) (data4 (epoch_images self1)))\<rparr>,
                   take (nat b) (drop (nat (batch_counter self1 * b)) (epoch_labels self1))),
              self1\<lparr>batch_counter := batch_counter self1 + 1\<rparr>, g1)"
      using z bn' ei1 el1 by (intro next_batch_in_epoch) (simp_all add: b0)
    finally have run: "next_batch b self g =
        Some (Inr ((epoch_images self1)\<lparr>data4 := ?ims\<rparr>, ?lbs), ?self', g1)"
      using z by simp
    have fit: "nat b \<le> ?n" using bn' by linarith
    have inv': "ds_inv ?self'" using inv1 by (simp add: ds_inv_def)
    have al': "epoch_aligned ?self'" using al1 by (simp add: epoch_aligned_def corpus_pairs_def)
    have eq: "length (data4 (epoch_images self1)) = length (epoch_labels self1)"
      using ei1 el1 by simp
    have w: "?ims = take (nat b) (drop 0 (data4 (epoch_images self1)))"
      "?lbs = take (nat b) (drop 0 (epoch_labels self1))" by simp_all
    have lz: "length (zip ?ims ?lbs) = nat b" using fit ei1 el1 by simp
    have sub: "mset (zip ?ims ?lbs) \<subseteq># mset (corpus_pairs self)"
      using served_pairs_in_corpus(1) [OF al1 eq w] cp by simp
    have pw: "\<forall>i < nat b. \<exists>j < ?n. ?ims ! i = ?N (data4 (images self) ! j) \<and> ?lbs ! i = labels self ! j"
      using served_pairs_in_corpus(2) [OF al1 eq w] lz fr lab
      by (simp only:) blast
    have main: "next_batch b self g = Some (Inr ((epoch_images self1)\<lparr>data4 := ?ims\<rparr>, ?lbs), ?self', g1)
        \<and> int (length ?ims) = b \<and> int (length ?lbs) = b"
      using run fit b0 ei1 el1 by simp
    show ?thesis
      apply (intro exI [of _ "(epoch_images self1)\<lparr>data4 := ?ims\<rparr>"] exI [of _ ?lbs]
                   exI [of _ ?self'] exI [of _ g1])
      using main pw sub inv' al' False ok by (simp add: num_examples_def)
  qed
qed

theorem next_batch_returns_full_batch_witness:
  "ds_inv ((example_dataset 1)\<lparr>shuffle_every_epoch := Some True\<rparr>)
   \<and> epoch_aligned ((example_dataset 1)\<lparr>shuffle_every_epoch := Some True\<rparr>)
   \<and> (1 :: int) \<le> 2 \<and> 2 \<le> num_examples ((example_dataset 1)\<lparr>shuffle_every_epoch := Some True\<rparr>)
   \<and> next_batch 2 ((example_dataset 1)\<lparr>shuffle_every_epoch := Some True\<rparr>) (const_rng 0)
       = Some (Inr (two_images\<lparr>data4 := [[[[4, 5, 6]]], [[[1, 2, 3]]]]\<rparr>, [8, 7]),
               (example_dataset 1)\<lparr>shuffle_every_epoch := Some True,
                  epoch_images := two_images\<lparr>data4 := [[[[4, 5, 6]]], [[[1, 2, 3]]]]\<rparr>,
                  epoch_labels := [8, 7]\<rparr>,
               const_rng 0)"
proof -
  let ?d = "(example_dataset 1)\<lparr>shuffle_every_epoch := Some True\<rparr>"
  have p: "perm_decode 2 0 = [1, 0]"
    by (simp add: numeral_2_eq_2 insert_at_def)
  have h: "ds_inv ?d" "epoch_aligned ?d" "(1 :: int) \<le> 2" "2 \<le> num_examples ?d"
    by (simp_all add: ds_inv_def epoch_aligned_def corpus_pairs_def normalized_item_def
          num_examples_def)
  have e: "start_new_epoch (?d\<lparr>batch_counter := 2\<rparr>) (const_rng 0) =
      (Inr (), ?d\<lparr>batch_counter := 0,
                  epoch_images := two_images\<lparr>data4 := [[[[4, 5, 6]]], [[[1, 2, 3]]]]\<rparr>,
                  epoch_labels := [8, 7]\<rparr>, const_rng 0)"
    by (simp add: start_new_epoch_def Let_def shuffle_images_labels_eq normalize_epoch_def
          const_rng_def numeral_2_eq_2 insert_at_def)
  from next_batch_returns_full_batch [OF h, of "const_rng 0"] e h show ?thesis
    by (auto simp: num_examples_def)
qed

text \<open>
  Claim C5. For every dataset that satisfies \<open>ds_inv\<close> and every \<open>batch_size\<close>
  greater than \<open>num_examples\<close>, \<^verbatim>\<open>next_batch\<close> does not return and does not raise:
  every slice is shorter than the request, every \<^verbatim>\<open>start_new_epoch\<close> returns, and
  the call repeats without end. So a call that returns has
  \<open>batch_size \<le> num_examples\<close>.
\<close>

theorem next_batch_never_returns:
  assumes "ds_inv self" and "num_examples self < b"
  shows "next_batch b self g = None"
proof -
  have "next_batch b self g = Some y \<Longrightarrow> \<not> (ds_inv self \<and> num_examples self < b)" for y
  proof (induction b self g y rule: next_batch_induct)
    case (step next_batch batch_size self0 g y)
    show ?case
    proof
      assume a: "ds_inv self0 \<and> num_examples self0 < batch_size"
      let ?c = "batch_counter self0" and ?n = "length (labels self0)"
      let ?s = "?c * batch_size" and ?e = "(?c + 1) * batch_size"
      from a have inv: "ds_inv self0" and big: "int ?n < batch_size"
        by (simp_all add: num_examples_def)
      from inv have c: "0 \<le> ?c" and ei: "length (data4 (epoch_images self0)) = ?n"
        by (simp_all add: ds_inv_def)
      from big have b0: "0 \<le> batch_size" by linarith
      have s: "0 \<le> ?s" using c b0 by simp
      have e: "?e = ?s + batch_size" by (simp add: algebra_simps)
      have se: "?s \<le> ?e" using e b0 by simp
      have "length (py_slice (Some ?s) (Some ?e) (data4 (epoch_images self0)))
              = min (nat ?e) ?n - min (nat ?s) ?n"
        by (simp add: length_py_slice [OF s se] ei)
      then have ne: "int (length (py_slice (Some ?s) (Some ?e) (data4 (epoch_images self0))))
                       \<noteq> batch_size"
        using big by (auto simp: min_def)
      have c1: "0 \<le> ?c + 1" using c by simp
      from ds_inv_start_new_epoch [OF inv c1, of g] obtain self1 g1 where
        ok: "start_new_epoch (self0\<lparr>batch_counter := ?c + 1\<rparr>) g = (Inr (), self1, g1)"
        and inv1: "ds_inv self1" and lab: "labels self1 = labels self0" by blast
      from step(2) ne ok have "next_batch batch_size self1 g1 = Some y"
        by (simp add: Let_def)
      from step(1) [OF this] inv1 lab big show False by (simp add: num_examples_def)
    qed
  qed
  with assms have "next_batch b self g \<noteq> Some y" for y by blast
  then show ?thesis by (cases "next_batch b self g") auto
qed

theorem next_batch_never_returns_witness:
  "ds_inv (example_dataset 0) \<and> num_examples (example_dataset 0) < 3
   \<and> next_batch 3 (example_dataset 0) (const_rng 0) = None"
  using next_batch_never_returns [of "example_dataset 0" 3 "const_rng 0"]
  by (simp add: ds_inv_def num_examples_def)

subsection \<open>The validation split\<close>

text \<open>
  The two slices of line 169 and line 174 are a prefix of the corpus and the rest of it,
  whatever the split index is.
\<close>

lemma py_slice_prefix: "py_slice None (Some k) xs = take (slice_bound k (length xs)) xs"
  by (simp add: py_slice_def)

lemma py_slice_suffix: "py_slice (Some k) None xs = drop (slice_bound k (length xs)) xs"
  by (simp add: py_slice_def slice_bound_def)

lemma py_slice_split: "py_slice None (Some k) xs @ py_slice (Some k) None xs = xs"
  by (simp add: py_slice_prefix py_slice_suffix)

lemma CifarDataSet_init_base:
  assumes "CifarDataSet_init imgs lbls n shuffle norm_mode aug g = (Inr self, g')"
    and "shuffle \<noteq> Some ''once_prior_train''"
  shows "images self = imgs \<and> labels self = lbls"
proof -
  from assms obtain every_epoch g1 u where
    "start_new_epoch \<lparr>shuffle_every_epoch = every_epoch, images = imgs, labels = lbls,
        n_classes = n, augmentation = aug, normalization = norm_mode,
        batch_counter = 0, epoch_images = imgs, epoch_labels = lbls\<rparr> g1 = (Inr u, self, g')"
    by (auto simp: CifarDataSet_init_def split: option.splits if_splits prod.splits sum.splits)
  from start_new_epoch_frame [OF this] show ?thesis by simp
qed

lemma CifarDataSet_init_plain:
  "CifarDataSet_init imgs lbls n None None False g =
     (Inr \<lparr>shuffle_every_epoch = Some False, images = imgs, labels = lbls, n_classes = n,
           augmentation = False, normalization = None, batch_counter = 0,
           epoch_images = imgs, epoch_labels = lbls\<rparr>, g)"
  by (simp add: CifarDataSet_init_def start_new_epoch_plain normalize_epoch_def)

text \<open>
  The constructor of a dataset returns when the shuffle mode is one it knows,
  images and labels have equal length, augmentation is off or the corpus empty,
  and \<^verbatim>\<open>by_chanels\<close> meets three channels or an empty corpus. The dataset
  then holds the pairs of image and label it was given, in the given order unless the
  mode is \<^verbatim>\<open>once_prior_train\<close>.
\<close>

lemma CifarDataSet_init_ok:
  assumes len: "length lbls = length (data4 imgs)"
    and sh: "shuffle = None \<or> shuffle = Some ''once_prior_train'' \<or> shuffle = Some ''every_epoch''"
    and aug: "aug \<longrightarrow> lbls = []"
    and ch: "norm_mode = Some ''by_chanels'' \<longrightarrow> lbls = [] \<or> 3 \<le> snd (snd (shape_tail imgs))"
  shows "\<exists>self g'. CifarDataSet_init imgs lbls n shuffle norm_mode aug g = (Inr self, g')
           \<and> length (labels self) = length lbls
           \<and> mset (zip (data4 (images self)) (labels self)) = mset (zip (data4 imgs) lbls)
           \<and> (shuffle \<noteq> Some ''once_prior_train'' \<longrightarrow> images self = imgs \<and> labels self = lbls)"
proof -
  define stage where "stage =
    (case shuffle of
       None \<Rightarrow> (Inr (Some False, imgs, lbls), g)
     | Some s \<Rightarrow>
         if s = ''once_prior_train'' then
           (case shuffle_images_labels imgs lbls g of
              (Inl e, g') \<Rightarrow> (Inl e, g')
            | (Inr (imgs', lbls'), g') \<Rightarrow> (Inr (Some False, imgs', lbls'), g'))
         else if s = ''every_epoch'' then (Inr (Some True, imgs, lbls), g)
         else (Inr (DataSet_shuffle_every_epoch, imgs, lbls), g))"
  have "\<exists>b imgs1 lbls1 g1. stage = (Inr (Some b, imgs1, lbls1), g1)
          \<and> length (data4 imgs1) = length lbls1 \<and> length lbls1 = length lbls
          \<and> shape_tail imgs1 = shape_tail imgs
          \<and> mset (zip (data4 imgs1) lbls1) = mset (zip (data4 imgs) lbls)
          \<and> (shuffle \<noteq> Some ''once_prior_train'' \<longrightarrow> imgs1 = imgs \<and> lbls1 = lbls)"
  proof (cases "shuffle = Some ''once_prior_train''")
    case True
    let ?p = "perm_decode (length lbls) (g 0)"
    have "mset (zip (map (\<lambda>i. data4 imgs ! i) ?p) (map (\<lambda>i. lbls ! i) ?p)) = mset (zip (data4 imgs) lbls)"
      using len by (intro mset_zip_map_nth) (simp_all add: mset_perm_decode)
    with True shuffle_images_labels_eq [OF len, of g] show ?thesis
      by (auto simp: stage_def length_perm_decode)
  next
    case False
    with sh len show ?thesis by (auto simp: stage_def)
  qed
  then obtain b imgs1 lbls1 g1 where s: "stage = (Inr (Some b, imgs1, lbls1), g1)"
    and l: "length (data4 imgs1) = length lbls1" "length lbls1 = length lbls"
    and t: "shape_tail imgs1 = shape_tail imgs"
    and m: "mset (zip (data4 imgs1) lbls1) = mset (zip (data4 imgs) lbls)"
    and e: "shuffle \<noteq> Some ''once_prior_train'' \<longrightarrow> imgs1 = imgs \<and> lbls1 = lbls" by blast
  let ?self = "\<lparr>shuffle_every_epoch = Some b, images = imgs1, labels = lbls1,
                 n_classes = n, augmentation = aug, normalization = norm_mode,
                 batch_counter = 0, epoch_images = imgs1, epoch_labels = lbls1\<rparr>"
  have "shuffle_every_epoch ?self \<noteq> None"
    "length (data4 (images ?self)) = length (labels ?self)"
    "augmentation ?self \<longrightarrow> labels ?self = []"
    "normalization ?self = Some ''by_chanels'' \<longrightarrow>
       labels ?self = [] \<or> 3 \<le> snd (snd (shape_tail (images ?self)))"
    using l t aug ch by auto
  from start_new_epoch_ok [OF this, of g1] obtain ei el g2 where
    r: "start_new_epoch ?self g1 =
         (Inr (), ?self\<lparr>batch_counter := 0, epoch_images := ei, epoch_labels := el\<rparr>, g2)"
    by blast
  have "CifarDataSet_init imgs lbls n shuffle norm_mode aug g =
          (Inr (?self\<lparr>batch_counter := 0, epoch_images := ei, epoch_labels := el\<rparr>), g2)"
    using s r unfolding CifarDataSet_init_def stage_def [symmetric] by simp
  with l m e show ?thesis by simp
qed

text \<open>
  Double arithmetic: the rounding at concrete values, its bounds, and the natural
  numbers below \<open>2 ^ 53\<close>, which are doubles.
\<close>

lemma round_half_even_int [simp]: "round_half_even (of_int n) = n"
  by (simp add: round_half_even_def)

lemma round_half_even_nonneg: "0 \<le> x \<Longrightarrow> 0 \<le> round_half_even x"
  by (auto simp: round_half_even_def Let_def)

lemma round_half_even_le: "x \<le> of_int m \<Longrightarrow> round_half_even x \<le> m"
proof -
  assume a: "x \<le> of_int m"
  then have f: "\<lfloor>x\<rfloor> \<le> m" by linarith
  show ?thesis
  proof (cases "\<lfloor>x\<rfloor> = m")
    case True
    then have "x - of_int \<lfloor>x\<rfloor> \<le> 0" using a by simp
    then show ?thesis using True by (simp add: round_half_even_def Let_def)
  next
    case False
    with f have "\<lfloor>x\<rfloor> + 1 \<le> m" by simp
    then show ?thesis using f by (auto simp: round_half_even_def Let_def)
  qed
qed

lemma floor_log2_eq:
  assumes "2 powr of_int e \<le> x" "x < 2 powr (of_int e + 1)"
  shows "\<lfloor>log 2 x\<rfloor> = e"
proof -
  have pos: "0 < x" using assms(1) powr_gt_zero [of 2 "of_int e"] by linarith
  have "of_int e \<le> log 2 x" using assms(1) pos by (simp add: le_log_iff)
  moreover have "log 2 x < of_int e + 1" using assms(2) pos by (simp add: log_less_iff)
  ultimately show ?thesis by linarith
qed

lemma round_double_eval:
  assumes "2 powr of_int e \<le> \<bar>x\<bar>" "\<bar>x\<bar> < 2 powr (of_int e + 1)" "- 1022 \<le> e"
  shows "round_double x = of_int (round_half_even (x / 2 powr (of_int e - 52))) * 2 powr (of_int e - 52)"
proof -
  have "x \<noteq> 0" using assms(1) powr_gt_zero [of 2 "of_int e"] by linarith
  moreover have "\<lfloor>log 2 \<bar>x\<bar>\<rfloor> = e" by (rule floor_log2_eq [OF assms(1,2)])
  ultimately show ?thesis using assms(3) by (simp add: round_double_def Let_def max_def)
qed

lemma ulp_inverse:
  assumes "0 < y" "y < 2 ^ 53"
  shows "\<exists>k. 2 powr (of_int (max \<lfloor>log 2 y\<rfloor> (- 1022)) - 52) = inverse (2 ^ k :: real)"
proof -
  define e where "e = max \<lfloor>log 2 y\<rfloor> (- 1022)"
  have "y < 2 powr 53" using assms(2) by (simp add: powr_realpow [symmetric])
  then have "log 2 y < 53" using assms(1) by (simp add: log_less_iff)
  then have "\<lfloor>log 2 y\<rfloor> \<le> 52" by linarith
  then have e52: "e \<le> 52" by (simp add: e_def)
  define k where "k = nat (52 - e)"
  have "of_int e - (52 :: real) = - real k" using e52 by (simp add: k_def)
  then have "2 powr (of_int e - 52) = inverse (2 ^ k :: real)"
    by (simp add: powr_minus powr_realpow)
  then show ?thesis unfolding e_def ..
qed

lemma round_double_nonneg: "0 \<le> y \<Longrightarrow> 0 \<le> round_double y"
  by (simp add: round_double_def Let_def round_half_even_nonneg)

lemma round_double_le_nat:
  assumes "0 \<le> y" "y \<le> real n" "n < 2 ^ 53"
  shows "round_double y \<le> real n"
proof (cases "y = 0")
  case True
  then show ?thesis by (simp add: round_double_def)
next
  case False
  with assms(1) have pos: "0 < y" by simp
  have "real n < 2 ^ 53" using assms(3) by (metis of_nat_less_iff of_nat_numeral of_nat_power)
  with assms(2) have "y < 2 ^ 53" by simp
  from ulp_inverse [OF pos this] obtain k where
    u: "2 powr (of_int (max \<lfloor>log 2 y\<rfloor> (- 1022)) - 52) = inverse (2 ^ k :: real)" ..
  let ?u = "inverse (2 ^ k :: real)"
  have "y / ?u \<le> real n / ?u" using assms(2) by (simp add: divide_right_mono)
  also have "real n / ?u = of_int (int n * 2 ^ k)" by (simp add: divide_inverse)
  finally have "round_half_even (y / ?u) \<le> int n * 2 ^ k" by (rule round_half_even_le)
  then have "real_of_int (round_half_even (y / ?u)) \<le> real_of_int (int n * 2 ^ k)"
    by (simp only: of_int_le_iff)
  then have "real_of_int (round_half_even (y / ?u)) * ?u \<le> real_of_int (int n * 2 ^ k) * ?u"
    by (simp add: mult_right_mono)
  also have "real_of_int (int n * 2 ^ k) * ?u = real n" by simp
  finally show ?thesis using False pos u by (simp add: round_double_def Let_def)
qed

lemma round_double_nat:
  assumes "n < 2 ^ 53"
  shows "round_double (real n) = real n"
proof (cases "n = 0")
  case True
  then show ?thesis by (simp add: round_double_def)
next
  case False
  then have pos: "0 < real n" by simp
  have "real n < 2 ^ 53" using assms by (metis of_nat_less_iff of_nat_numeral of_nat_power)
  from ulp_inverse [OF pos this] obtain k where
    u: "2 powr (of_int (max \<lfloor>log 2 (real n)\<rfloor> (- 1022)) - 52) = inverse (2 ^ k :: real)" ..
  have "real n / inverse (2 ^ k) = of_int (int n * 2 ^ k)" by (simp add: divide_inverse)
  then have "round_half_even (real n / inverse (2 ^ k)) = int n * 2 ^ k"
    by (simp only: round_half_even_int)
  then have "of_int (round_half_even (real n / inverse (2 ^ k))) * inverse (2 ^ k :: real) = real n"
    by simp
  then show ?thesis using False u by (simp add: round_double_def Let_def)
qed

lemma double_max_big: "2 ^ 53 \<le> double_max"
proof -
  have "(2 :: real) ^ 53 * 1 \<le> (2 ^ 53 - 1) * 2 ^ 971"
    by (rule order_trans [of _ "(2 ^ 53 - 1) * 2"]) (simp_all add: mult_left_mono)
  then show ?thesis by (simp add: double_max_def)
qed

lemma split_idx_fraction:
  assumes f: "0 \<le> f" "f \<le> 1" and n: "length (data4 imgs) < 2 ^ 53"
  shows "\<exists>k. split_idx_of imgs f = Inr k \<and> 0 \<le> k \<and> k \<le> int (length (data4 imgs))
           \<and> k = \<lfloor>float_mul (real (length (data4 imgs))) (float_sub 1 f)\<rfloor>"
proof -
  let ?n = "length (data4 imgs)"
  let ?d = "float_sub 1 f"
  let ?x = "float_mul (real ?n) ?d"
  have rn: "round_double (real ?n) = real ?n" by (rule round_double_nat [OF n])
  have d0: "0 \<le> ?d" using f by (simp add: float_sub_def round_double_nonneg)
  have "round_double (1 - f) \<le> real (1 :: nat)"
    using f by (intro round_double_le_nat) simp_all
  then have d1: "?d \<le> 1" by (simp add: float_sub_def)
  have x0: "0 \<le> ?x" using d0 by (simp add: float_mul_def round_double_nonneg)
  have "real ?n * ?d \<le> real ?n" using d0 d1 by (simp add: mult_left_le)
  then have xn: "?x \<le> real ?n"
    unfolding float_mul_def using d0 n by (intro round_double_le_nat) simp_all
  have "real ?n < 2 ^ 53" using n by (metis of_nat_less_iff of_nat_numeral of_nat_power)
  with xn double_max_big have xm: "\<not> double_max < \<bar>?x\<bar>" using x0 by simp
  have dm: "\<not> double_max < \<bar>?d\<bar>" using d0 d1 double_max_big by simp
  have "real ?n < 2 ^ 53" using n by (metis of_nat_less_iff of_nat_numeral of_nat_power)
  with double_max_big have nm: "\<not> double_max < real ?n" by simp
  have k: "split_idx_of imgs f = Inr \<lfloor>?x\<rfloor>"
    using rn nm dm xm x0 by (simp add: split_idx_of_def Let_def py_int_def)
  have "\<lfloor>?x\<rfloor> \<le> int ?n" using xn by linarith
  moreover have "0 \<le> \<lfloor>?x\<rfloor>" using x0 by simp
  ultimately show ?thesis using k by simp
qed

lemma float_sub_examples:
  "float_sub 1 0 = 1"
  "float_sub 1 (1 / 2) = 1 / 2"
  "float_sub 1 (3602879701896397 / 2 ^ 55) = 8106479329266893 / 2 ^ 53"
  "float_sub 1 (3602879701896397 / 2 ^ 54) = 3602879701896397 / 2 ^ 52"
  "float_sub 1 (3602879701896397 / 2 ^ 52) = 900719925474099 / 2 ^ 52"
proof -
  show "float_sub 1 0 = 1"
    using round_double_eval [of 0 1] by (simp add: float_sub_def powr_minus round_half_even_def)
  show "float_sub 1 (1 / 2) = 1 / 2"
    using round_double_eval [of "-1" "1 / 2"]
    by (simp add: float_sub_def powr_minus round_half_even_def)
  show "float_sub 1 (3602879701896397 / 2 ^ 55) = 8106479329266893 / 2 ^ 53"
    using round_double_eval [of "-1" "1 - 3602879701896397 / 2 ^ 55"]
    by (simp add: float_sub_def powr_minus round_half_even_def)
  show "float_sub 1 (3602879701896397 / 2 ^ 54) = 3602879701896397 / 2 ^ 52"
    using round_double_eval [of "-1" "1 - 3602879701896397 / 2 ^ 54"]
    by (simp add: float_sub_def powr_minus round_half_even_def)
  show "float_sub 1 (3602879701896397 / 2 ^ 52) = 900719925474099 / 2 ^ 52"
    using round_double_eval [of "-3" "1 - 3602879701896397 / 2 ^ 52"]
    by (simp add: float_sub_def powr_minus round_half_even_def)
qed

lemma float_mul_examples:
  "float_mul 50000 (8106479329266893 / 2 ^ 53) = 45000"
  "float_mul 5 (3602879701896397 / 2 ^ 52) = 4"
  "float_mul 5 (900719925474099 / 2 ^ 52) = 4503599627370495 / 2 ^ 52"
  "float_mul 2 (1 / 2) = 1"
proof -
  show "float_mul 50000 (8106479329266893 / 2 ^ 53) = 45000"
    using round_double_eval [of 15 "50000 * (8106479329266893 / 2 ^ 53)"]
    by (simp add: float_mul_def powr_minus round_half_even_def)
  show "float_mul 5 (3602879701896397 / 2 ^ 52) = 4"
    using round_double_eval [of 2 "5 * (3602879701896397 / 2 ^ 52)"]
    by (simp add: float_mul_def powr_minus round_half_even_def)
  show "float_mul 5 (900719925474099 / 2 ^ 52) = 4503599627370495 / 2 ^ 52"
    using round_double_eval [of "-1" "5 * (900719925474099 / 2 ^ 52)"]
    by (simp add: float_mul_def powr_minus round_half_even_def)
  show "float_mul 2 (1 / 2) = 1"
    using round_double_eval [of 0 "2 * (1 / 2)"]
    by (simp add: float_mul_def powr_minus round_half_even_def)
qed

lemma split_idx_eval:
  assumes "round_double (real (length (data4 imgs))) = n" "float_sub 1 f = d" "float_mul n d = x"
    and "0 \<le> d" "d \<le> 2 ^ 53" "0 \<le> x" "x \<le> 2 ^ 53" "n \<le> 2 ^ 53"
  shows "split_idx_of imgs f = Inr \<lfloor>x\<rfloor>"
proof -
  have "\<not> double_max < \<bar>d\<bar>" "\<not> double_max < \<bar>x\<bar>" "\<not> double_max < n"
    using assms(4-8) double_max_big by simp_all
  with assms(1-3,6) show ?thesis by (simp add: split_idx_of_def Let_def py_int_def)
qed

lemma split_idx_examples:
  "length (data4 imgs) = 50000 \<Longrightarrow> split_idx_of imgs (3602879701896397 / 2 ^ 55) = Inr 45000"
  "length (data4 imgs) = 5 \<Longrightarrow> split_idx_of imgs (3602879701896397 / 2 ^ 54) = Inr 4"
  "length (data4 imgs) = 5 \<Longrightarrow> split_idx_of imgs (3602879701896397 / 2 ^ 52) = Inr 0"
  "length (data4 imgs) = 2 \<Longrightarrow> split_idx_of imgs (1 / 2) = Inr 1"
  "length (data4 imgs) = 2 \<Longrightarrow> split_idx_of imgs 0 = Inr 2"
proof -
  have n: "round_double (real 50000) = 50000" "round_double (real 5) = 5" "round_double (real 2) = 2"
    using round_double_nat [of 50000] round_double_nat [of 5] round_double_nat [of 2] by simp_all
  have m: "float_mul 2 1 = 2" using n(3) by (simp add: float_mul_def)
  show "split_idx_of imgs (3602879701896397 / 2 ^ 55) = Inr 45000" if "length (data4 imgs) = 50000"
    using split_idx_eval [of imgs 50000, OF _ float_sub_examples(3) float_mul_examples(1)] that n(1)
    by simp
  show "split_idx_of imgs (3602879701896397 / 2 ^ 54) = Inr 4" if "length (data4 imgs) = 5"
    using split_idx_eval [of imgs 5, OF _ float_sub_examples(4) float_mul_examples(2)] that n(2)
    by simp
  show "split_idx_of imgs (3602879701896397 / 2 ^ 52) = Inr 0" if "length (data4 imgs) = 5"
    using split_idx_eval [of imgs 5, OF _ float_sub_examples(5) float_mul_examples(3)] that n(2)
    by simp
  show "split_idx_of imgs (1 / 2) = Inr 1" if "length (data4 imgs) = 2"
    using split_idx_eval [of imgs 2, OF _ float_sub_examples(2) float_mul_examples(4)] that n(3)
    by simp
  show "split_idx_of imgs 0 = Inr 2" if "length (data4 imgs) = 2"
    using split_idx_eval [of imgs 2, OF _ float_sub_examples(1) m] that n(3)
    by simp
qed

lemma split_idx_rounding_examples:
  "length (data4 imgs) = 50000 \<Longrightarrow> split_idx_of imgs (6124895493223875 / 2 ^ 54) = Inr 32999"
  "length (data4 imgs) = 10 \<Longrightarrow> split_idx_of imgs (8106479329266893 / 2 ^ 53) = Inr 0"
  "round_double (34 / 100) = 6124895493223875 / 2 ^ 54"
  "round_double (9 / 10) = 8106479329266893 / 2 ^ 53"
  "round_double (1 / 10) = 3602879701896397 / 2 ^ 55"
proof -
  have n: "round_double (real 50000) = 50000" "round_double (real 10) = 10"
    using round_double_nat [of 50000] round_double_nat [of 10] by simp_all
  have s1: "float_sub 1 (6124895493223875 / 2 ^ 54) = 2972375754064527 / 2 ^ 52"
    using round_double_eval [of "-1" "1 - 6124895493223875 / 2 ^ 54"]
    by (simp add: float_sub_def powr_minus round_half_even_def)
  have m1: "float_mul 50000 (2972375754064527 / 2 ^ 52) = 4535485464575999 / 2 ^ 37"
    using round_double_eval [of 15 "50000 * (2972375754064527 / 2 ^ 52)"]
    by (simp add: float_mul_def powr_minus round_half_even_def)
  have s2: "float_sub 1 (8106479329266893 / 2 ^ 53) = 900719925474099 / 2 ^ 53"
    using round_double_eval [of "-4" "1 - 8106479329266893 / 2 ^ 53"]
    by (simp add: float_sub_def powr_minus round_half_even_def)
  have m2: "float_mul 10 (900719925474099 / 2 ^ 53) = 4503599627370495 / 2 ^ 52"
    using round_double_eval [of "-1" "10 * (900719925474099 / 2 ^ 53)"]
    by (simp add: float_mul_def powr_minus round_half_even_def)
  show "split_idx_of imgs (6124895493223875 / 2 ^ 54) = Inr 32999" if "length (data4 imgs) = 50000"
    using split_idx_eval [of imgs 50000, OF _ s1 m1] that n(1) by simp
  show "split_idx_of imgs (8106479329266893 / 2 ^ 53) = Inr 0" if "length (data4 imgs) = 10"
    using split_idx_eval [of imgs 10, OF _ s2 m2] that n(2) by simp
  show "round_double (34 / 100) = 6124895493223875 / 2 ^ 54"
    using round_double_eval [of "-2" "34 / 100"] by (simp add: powr_minus round_half_even_def)
  show "round_double (9 / 10) = 8106479329266893 / 2 ^ 53"
    using round_double_eval [of "-1" "9 / 10"] by (simp add: powr_minus round_half_even_def)
  show "round_double (1 / 10) = 3602879701896397 / 2 ^ 55"
    using round_double_eval [of "-4" "1 / 10"] by (simp add: powr_minus round_half_even_def)
qed

lemma provider_plain:
  assumes "split_idx_of imgs f = Inr k" "0 \<le> k"
  shows "fst (CifarDataProvider_init Cifar10DataProvider
          \<lparr>validation_set = Some True, validation_split = Some f,
           shuffle_mode = None, normalization_mode = None\<rparr>
          (imgs, lbls) (timgs, tlbls) g)
   = Inr \<lparr>train = plain_dataset (imgs\<lparr>data4 := take (nat k) (data4 imgs)\<rparr>) (take (nat k) lbls),
          validation =
            (if f = 0 then Test_alias
             else Own (plain_dataset (imgs\<lparr>data4 := drop (nat k) (data4 imgs)\<rparr>)
                                     (drop (nat k) lbls))),
          test = plain_dataset timgs tlbls\<rparr>"
  using assms
  by (simp add: CifarDataProvider_init_def train_validation_def
      CifarDataSet_init_plain py_slice_prefix py_slice_suffix slice_bound_def min_def)

text \<open>
  Claim C6, corrected. The claim: when both \<^verbatim>\<open>validation_set\<close> and
  \<^verbatim>\<open>validation_split\<close> are given, the first \<open>\<lfloor>N * (1 - f)\<rfloor>\<close> examples of the
  decoded corpus are the training split and the tail is the validation split.
  The code computes the split index \<^verbatim>\<open>int(N * (1 - f))\<close> in double arithmetic,
  which is not always the floor of the exact product. What holds is this: for a
  fraction \<open>0 \<le> f \<le> 1\<close> (other than \<^verbatim>\<open>validation_set = True\<close> with
  \<open>f = 0\<close>), a provider class without augmentation, a shuffle mode the dataset knows
  and corpora of aligned images and labels, the constructor returns; the split index
  \<open>k\<close> is the integer part of the double product of \<open>N\<close> and the double difference
  \<open>1 - f\<close>, and \<open>0 \<le> k \<le> N\<close>; the training dataset holds exactly the first \<open>k\<close>
  examples, the validation dataset exactly the examples from there on, in the order of
  the corpus unless the mode is \<^verbatim>\<open>once_prior_train\<close>; the two parts in this order
  are the corpus; and \<open>N = 50000\<close> with the double \<open>0.1\<close> give 45000 and 5000
  examples.
\<close>

theorem validation_split_partition:
  fixes lbls :: "'l list" and tlbls :: "'l list" and f :: real
  assumes f: "0 \<le> f" "f \<le> 1" and nz: "f = 0 \<longrightarrow> \<not> vs"
    and opts: "validation_set params = Some vs" "validation_split params = Some f"
    and sh: "shuffle_mode params = None \<or> shuffle_mode params = Some ''once_prior_train''
               \<or> shuffle_mode params = Some ''every_epoch''"
    and aug: "\<not> data_augmentation self"
    and ch: "normalization_mode params = Some ''by_chanels'' \<longrightarrow>
               3 \<le> snd (snd (shape_tail imgs)) \<and> 3 \<le> snd (snd (shape_tail timgs))"
    and len: "length lbls = length (data4 imgs)" "length tlbls = length (data4 timgs)"
    and small: "length lbls < 2 ^ 53"
  shows "\<exists>k p g' v.
           split_idx_of imgs f = Inr k
           \<and> k = \<lfloor>float_mul (real (length lbls)) (float_sub 1 f)\<rfloor>
           \<and> 0 \<le> k \<and> k \<le> int (length lbls)
           \<and> CifarDataProvider_init self params (imgs, lbls) (timgs, tlbls) g = (Inr p, g')
           \<and> validation p = Own v
           \<and> mset (zip (data4 (images (train p))) (labels (train p)))
               = mset (zip (take (nat k) (data4 imgs)) (take (nat k) lbls))
           \<and> mset (zip (data4 (images v)) (labels v))
               = mset (zip (drop (nat k) (data4 imgs)) (drop (nat k) lbls))
           \<and> (shuffle_mode params \<noteq> Some ''once_prior_train'' \<longrightarrow>
                 data4 (images (train p)) = take (nat k) (data4 imgs)
                 \<and> labels (train p) = take (nat k) lbls
                 \<and> data4 (images v) = drop (nat k) (data4 imgs)
                 \<and> labels v = drop (nat k) lbls)
           \<and> take (nat k) (data4 imgs) @ drop (nat k) (data4 imgs) = data4 imgs
           \<and> take (nat k) lbls @ drop (nat k) lbls = lbls
           \<and> num_examples (train p) = k
           \<and> num_examples (train p) + num_examples v = int (length lbls)
           \<and> (length lbls = 50000 \<and> f = 3602879701896397 / 2 ^ 55 \<longrightarrow>
                 num_examples (train p) = 45000 \<and> num_examples v = 5000)"
proof -
  let ?n = "length lbls"
  from split_idx_fraction [OF f, of imgs] small len obtain k where
    k: "split_idx_of imgs f = Inr k" and k0: "0 \<le> k" and kn: "k \<le> int ?n"
    and kf: "k = \<lfloor>float_mul (real ?n) (float_sub 1 f)\<rfloor>" by auto
  define m where "m = nat k"
  have mn: "m \<le> ?n" using kn k0 by (simp add: m_def)
  have sb: "slice_bound k (length (data4 imgs)) = m" "slice_bound k ?n = m"
    using k0 kn len by (simp_all add: slice_bound_def m_def)
  let ?timgs = "imgs\<lparr>data4 := take m (data4 imgs)\<rparr>" and ?tlbls = "take m lbls"
  let ?vimgs = "imgs\<lparr>data4 := drop m (data4 imgs)\<rparr>" and ?vlbls = "drop m lbls"
  let ?nc = "int (n_classes_of self)"
  have a: "length ?tlbls = length (data4 ?timgs)" using len by simp
  have b: "length ?vlbls = length (data4 ?vimgs)" using len by simp
  from CifarDataSet_init_ok [OF a sh, of False "normalization_mode params" ?nc g] ch
  obtain tr g1 where
    tr: "CifarDataSet_init ?timgs ?tlbls ?nc (shuffle_mode params) (normalization_mode params) False g
           = (Inr tr, g1)"
    and trl: "length (labels tr) = length ?tlbls"
    and trm: "mset (zip (data4 (images tr)) (labels tr)) = mset (zip (data4 ?timgs) ?tlbls)"
    and tre: "shuffle_mode params \<noteq> Some ''once_prior_train'' \<longrightarrow>
                images tr = ?timgs \<and> labels tr = ?tlbls"
    by auto
  from CifarDataSet_init_ok [OF b sh, of False "normalization_mode params" ?nc g1] ch
  obtain v g2 where
    v: "CifarDataSet_init ?vimgs ?vlbls ?nc (shuffle_mode params) (normalization_mode params) False g1
           = (Inr v, g2)"
    and vl: "length (labels v) = length ?vlbls"
    and vm: "mset (zip (data4 (images v)) (labels v)) = mset (zip (data4 ?vimgs) ?vlbls)"
    and ve: "shuffle_mode params \<noteq> Some ''once_prior_train'' \<longrightarrow>
                images v = ?vimgs \<and> labels v = ?vlbls"
    by auto
  from CifarDataSet_init_ok [OF len(2) sh, of False "normalization_mode params" ?nc g2] ch
  obtain te g3 where
    te: "CifarDataSet_init timgs tlbls ?nc (shuffle_mode params) (normalization_mode params) False g2
           = (Inr te, g3)"
    by auto
  have tv: "train_validation self params imgs lbls g = (Inr (tr, Own v), g2)"
    using opts aug tr v sb k
    by (simp add: train_validation_def py_slice_prefix py_slice_suffix)
  let ?p = "\<lparr>train = tr, validation = Own v, test = te\<rparr>"
  have keep: "\<not> (validation_set params = Some True
                   \<and> (validation_split params = None \<or> validation_split params = Some 0))"
    using opts nz by auto
  have run: "CifarDataProvider_init self params (imgs, lbls) (timgs, tlbls) g = (Inr ?p, g3)"
    using tv te keep by (simp add: CifarDataProvider_init_def)
  have n1: "num_examples tr = k"
    using trl mn k0 by (simp add: num_examples_def m_def)
  have n2: "num_examples tr + num_examples v = int ?n"
    using trl vl mn by (simp add: num_examples_def)
  have ex: "?n = 50000 \<and> f = 3602879701896397 / 2 ^ 55 \<longrightarrow>
              num_examples tr = 45000 \<and> num_examples v = 5000"
  proof
    assume h: "?n = 50000 \<and> f = 3602879701896397 / 2 ^ 55"
    with len have "length (data4 imgs) = 50000" by simp
    from split_idx_examples(1) [OF this] have "split_idx_of imgs f = Inr 45000"
      using h by (simp only:)
    with k have "k = 45000" by simp
    with n1 n2 h show "num_examples tr = 45000 \<and> num_examples v = 5000" by simp
  qed
  from k kf k0 kn run trm vm tre ve n1 n2 ex show ?thesis
    by (intro exI [of _ k] exI [of _ ?p] exI [of _ g3] exI [of _ v]) (simp add: m_def)
qed

theorem validation_split_partition_witness:
  "(0 :: real) \<le> 1 / 2 \<and> (1 / 2 :: real) \<le> 1 \<and> (1 / 2 :: real) \<noteq> 0
   \<and> \<not> data_augmentation Cifar10DataProvider
   \<and> length [7, 8 :: int] = length (data4 two_images)
   \<and> length [5, 6 :: int] = length (data4 two_images)
   \<and> length [7, 8 :: int] < 2 ^ 53
   \<and> split_idx_of two_images (1 / 2) = Inr 1
   \<and> (\<exists>p g' v.
         CifarDataProvider_init Cifar10DataProvider
           \<lparr>validation_set = Some True, validation_split = Some (1 / 2),
            shuffle_mode = None, normalization_mode = None\<rparr>
           (two_images, [7, 8 :: int]) (two_images, [5, 6]) (const_rng 0) = (Inr p, g')
         \<and> validation p = Own v
         \<and> data4 (images (train p)) = [[[[1, 2, 3]]]] \<and> labels (train p) = [7]
         \<and> data4 (images v) = [[[[4, 5, 6]]]] \<and> labels v = [8]
         \<and> num_examples (train p) = 1 \<and> num_examples v = 1)"
proof -
  have k: "split_idx_of two_images (1 / 2) = Inr 1"
    by (rule split_idx_examples(4)) simp
  from validation_split_partition [of "1 / 2" True
      "\<lparr>validation_set = Some True, validation_split = Some (1 / 2),
        shuffle_mode = None, normalization_mode = None\<rparr>"
      Cifar10DataProvider two_images two_images "[7, 8 :: int]" "[5, 6]" "const_rng 0"] k
  show ?thesis by auto
qed

text \<open>
  The split index of the code against the floor of the exact product, on a corpus of
  five examples. With \<^verbatim>\<open>validation_split = 0.8\<close> the training split is empty,
  where \<open>\<lfloor>5 * (1 - 8 / 10)\<rfloor> = 1\<close>. With \<^verbatim>\<open>validation_split = 0.2\<close> the training
  split has four examples, where the floor of the exact product with the double that
  \<open>0.2\<close> is, is \<open>3\<close>.
\<close>

theorem double_split_differs_from_floor:
  "fst (CifarDataProvider_init Cifar10DataProvider
          \<lparr>validation_set = Some True, validation_split = Some (3602879701896397 / 2 ^ 52),
           shuffle_mode = None, normalization_mode = None\<rparr>
          (five_images, [0, 1, 2, 3, 4 :: int]) (two_images, [5, 6]) (const_rng 0))
     = Inr \<lparr>train = plain_dataset (five_images\<lparr>data4 := []\<rparr>) [],
            validation = Own (plain_dataset five_images [0, 1, 2, 3, 4]),
            test = plain_dataset two_images [5, 6]\<rparr>
   \<and> round_double (8 / 10) = 3602879701896397 / 2 ^ 52
   \<and> \<lfloor>5 * (1 - 8 / 10 :: real)\<rfloor> = 1
   \<and> fst (CifarDataProvider_init Cifar10DataProvider
          \<lparr>validation_set = Some True, validation_split = Some (3602879701896397 / 2 ^ 54),
           shuffle_mode = None, normalization_mode = None\<rparr>
          (five_images, [0, 1, 2, 3, 4 :: int]) (two_images, [5, 6]) (const_rng 0))
     = Inr \<lparr>train = plain_dataset (five_images\<lparr>data4 := [[[[0]]], [[[1]]], [[[2]]], [[[3]]]]\<rparr>)
                      [0, 1, 2, 3],
            validation = Own (plain_dataset (five_images\<lparr>data4 := [[[[4]]]]\<rparr>) [4]),
            test = plain_dataset two_images [5, 6]\<rparr>
   \<and> round_double (2 / 10) = 3602879701896397 / 2 ^ 54
   \<and> \<lfloor>5 * (1 - 3602879701896397 / 2 ^ 54 :: real)\<rfloor> = 3"
proof -
  have k8: "split_idx_of five_images (3602879701896397 / 2 ^ 52) = Inr 0"
    by (rule split_idx_examples(3)) simp
  have k2: "split_idx_of five_images (3602879701896397 / 2 ^ 54) = Inr 4"
    by (rule split_idx_examples(2)) simp
  have a: "fst (CifarDataProvider_init Cifar10DataProvider
          \<lparr>validation_set = Some True, validation_split = Some (3602879701896397 / 2 ^ 52),
           shuffle_mode = None, normalization_mode = None\<rparr>
          (five_images, [0, 1, 2, 3, 4 :: int]) (two_images, [5, 6]) (const_rng 0))
     = Inr \<lparr>train = plain_dataset (five_images\<lparr>data4 := []\<rparr>) [],
            validation = Own (plain_dataset five_images [0, 1, 2, 3, 4]),
            test = plain_dataset two_images [5, 6]\<rparr>"
    using provider_plain [OF k8, of "[0, 1, 2, 3, 4]" two_images "[5, 6]" "const_rng 0"]
    by simp
  have b: "fst (CifarDataProvider_init Cifar10DataProvider
          \<lparr>validation_set = Some True, validation_split = Some (3602879701896397 / 2 ^ 54),
           shuffle_mode = None, normalization_mode = None\<rparr>
          (five_images, [0, 1, 2, 3, 4 :: int]) (two_images, [5, 6]) (const_rng 0))
     = Inr \<lparr>train = plain_dataset (five_images\<lparr>data4 := [[[[0]]], [[[1]]], [[[2]]], [[[3]]]]\<rparr>)
                      [0, 1, 2, 3],
            validation = Own (plain_dataset (five_images\<lparr>data4 := [[[[4]]]]\<rparr>) [4]),
            test = plain_dataset two_images [5, 6]\<rparr>"
    using provider_plain [OF k2, of "[0, 1, 2, 3, 4]" two_images "[5, 6]" "const_rng 0"]
    by simp
  have r8: "round_double (8 / 10) = 3602879701896397 / 2 ^ 52"
    using round_double_eval [of "-1" "8 / 10"] by (simp add: powr_minus round_half_even_def)
  have r2: "round_double (2 / 10) = 3602879701896397 / 2 ^ 54"
    using round_double_eval [of "-3" "2 / 10"] by (simp add: powr_minus round_half_even_def)
  have f8: "\<lfloor>5 * (1 - 8 / 10 :: real)\<rfloor> = 1" by simp
  have f2: "\<lfloor>5 * (1 - 3602879701896397 / 2 ^ 54 :: real)\<rfloor> = 3" by simp
  from a r8 f8 b r2 f2 show ?thesis by (simp only:) 
qed

text \<open>
  The case that the corrected statement leaves out: with \<^verbatim>\<open>validation_set = True\<close>
  and the fraction \<open>0.0\<close> line 166 makes the split (the validation dataset is the
  empty tail), and the constructor's last statement, which tests the fraction for
  truth, then puts the test dataset in its place.
\<close>

lemma zero_split_validation_is_test:
  "fst (CifarDataProvider_init Cifar10DataProvider
          \<lparr>validation_set = Some True, validation_split = Some 0,
           shuffle_mode = None, normalization_mode = None\<rparr>
          (two_images, [7, 8 :: int]) (two_images, [5, 6]) (const_rng 0))
   = Inr \<lparr>train = plain_dataset two_images [7, 8],
          validation = Test_alias,
          test = plain_dataset two_images [5, 6]\<rparr>"
proof -
  have k: "split_idx_of two_images 0 = Inr 2"
    by (rule split_idx_examples(5)) simp
  from provider_plain [OF k, of "[7, 8]" two_images "[5, 6]" "const_rng 0"]
  show ?thesis by simp
qed

subsection \<open>One-hot labels\<close>

lemma argmax_scan_le: "\<forall>x \<in> set xs. x \<le> best \<Longrightarrow> argmax_scan xs i best bi = bi"
  by (induction xs arbitrary: i) auto

lemma argmax_scan_one_hot:
  "j < n \<Longrightarrow> argmax_scan ((replicate n 0)[j := 1]) i 0 bi = i + j"
proof (induction n arbitrary: j i)
  case 0
  then show ?case by simp
next
  case (Suc n)
  show ?case
  proof (cases j)
    case 0
    then show ?thesis by (simp add: argmax_scan_le)
  next
    case (Suc k)
    with Suc.prems have "k < n" by simp
    with Suc.IH [of k "Suc i"] Suc show ?thesis by simp
  qed
qed

lemma argmax_row_one_hot:
  assumes "j < n"
  shows "argmax_row ((replicate n 0)[j := 1]) = j"
proof (cases n)
  case 0
  with assms show ?thesis by simp
next
  case (Suc m)
  show ?thesis
  proof (cases j)
    case 0
    with Suc show ?thesis by (simp add: argmax_row_def argmax_scan_le)
  next
    case (Suc k)
    with assms \<open>n = Suc m\<close> have "k < m" by simp
    then show ?thesis using Suc \<open>n = Suc m\<close>
      by (simp add: argmax_row_def argmax_scan_one_hot)
  qed
qed

lemma n_classes_of_pos: "0 < n_classes_of p"
  by (cases p) simp_all

text \<open>
  Claim C9. For every provider and every one-dimensional array of class indices that all
  lie in \<open>[0, n_classes)\<close>, \<^verbatim>\<open>labels_to_one_hot\<close> returns an array and
  \<^verbatim>\<open>labels_from_one_hot\<close> of that array returns the original indices.
\<close>

theorem one_hot_round_trip:
  assumes "\<forall>l \<in> set lbls. 0 \<le> l \<and> l < int (n_classes_of self)"
  shows "\<exists>one_hot. labels_to_one_hot self lbls = Inr one_hot
           \<and> labels_from_one_hot self one_hot = Inr lbls"
proof -
  let ?nc = "n_classes_of self"
  let ?oh = "\<lparr>shape2 = (length lbls, ?nc),
             data2 = map (\<lambda>l. (replicate ?nc 0)[nat (if l < 0 then l + int ?nc else l) := 1]) lbls\<rparr>"
  have enc: "labels_to_one_hot self lbls = Inr ?oh"
    using assms by (auto simp: labels_to_one_hot_def Let_def)
  have "map (\<lambda>row. int (argmax_row row)) (data2 ?oh) = lbls"
  proof -
    have "\<And>l. l \<in> set lbls \<Longrightarrow>
            int (argmax_row ((replicate ?nc 0)[nat (if l < 0 then l + int ?nc else l) := 1])) = l"
    proof -
      fix l assume "l \<in> set lbls"
      with assms have "0 \<le> l" "l < int ?nc" by auto
      then have "nat l < ?nc" by linarith
      then show "int (argmax_row ((replicate ?nc 0)[nat (if l < 0 then l + int ?nc else l) := 1])) = l"
        using \<open>0 \<le> l\<close> by (simp add: argmax_row_one_hot)
    qed
    then show ?thesis by (simp add: map_idI comp_def)
  qed
  then have "labels_from_one_hot self ?oh = Inr lbls"
    using n_classes_of_pos [of self] by (simp add: labels_from_one_hot_def)
  with enc show ?thesis by blast
qed

theorem one_hot_round_trip_witness:
  "set [3, 0, 9 :: int] \<subseteq> {0..<int (n_classes_of Cifar10DataProvider)}
   \<and> (\<exists>one_hot. labels_to_one_hot Cifar10DataProvider [3, 0, 9] = Inr one_hot
           \<and> labels_from_one_hot Cifar10DataProvider one_hot = Inr [3, 0, 9])"
  using one_hot_round_trip [of "[3, 0, 9]" Cifar10DataProvider] by simp

end
